theory Spec2Isabelle
  imports Main "HOL-Library.Multiset"
begin

section \<open>Byte strings: the functions of Go's \<open>strings\<close> package that the code calls\<close>

text \<open>
  A Go \<open>string\<close> is a sequence of bytes; \<open>string\<close> here is a list of 8-bit characters.
  \<open>strings.Split\<close> and \<open>strings.Join\<close> are only ever called with the one-byte separator
  \<open>"/"\<close>, so \<open>Split\<close> takes that byte.
\<close>

definition HasPrefix :: "string \<Rightarrow> string \<Rightarrow> bool" where
  "HasPrefix s p = (take (length p) s = p)"

definition HasSuffix :: "string \<Rightarrow> string \<Rightarrow> bool" where
  "HasSuffix s x = (length x \<le> length s \<and> drop (length s - length x) s = x)"

definition TrimPrefix :: "string \<Rightarrow> string \<Rightarrow> string" where
  "TrimPrefix s p = (if HasPrefix s p then drop (length p) s else s)"

definition TrimSuffix :: "string \<Rightarrow> string \<Rightarrow> string" where
  "TrimSuffix s x = (if HasSuffix s x then take (length s - length x) s else s)"

text \<open>\<open>strings.Split(s, "/")\<close>: the pieces between separators; never an empty list.\<close>

fun Split :: "string \<Rightarrow> char \<Rightarrow> string list" where
  "Split [] sep = [[]]"
| "Split (c # cs) sep =
     (if c = sep then [] # Split cs sep
      else (case Split cs sep of
              [] \<Rightarrow> [[c]]
            | w # ws \<Rightarrow> (c # w) # ws))"

fun Join :: "string list \<Rightarrow> string \<Rightarrow> string" where
  "Join [] sep = []"
| "Join [x] sep = x"
| "Join (x # y # ys) sep = x @ sep @ Join (y # ys) sep"

section \<open>Time: the parts of Go's \<open>time\<close> package that the code calls\<close>

text \<open>
  A \<open>time.Time\<close> is an instant; it is modelled as the number of nanoseconds since the Unix
  epoch, read in UTC (the records' dates are parsed by \<open>time.Parse\<close>, which yields UTC).
  \<open>Before\<close> and \<open>After\<close> are \<open><\<close> and \<open>>\<close> on instants. The calendar is the proleptic
  Gregorian one.
\<close>

type_synonym Time = int

definition isLeap :: "int \<Rightarrow> bool" where
  "isLeap year = (year mod 4 = 0 \<and> (year mod 100 \<noteq> 0 \<or> year mod 400 = 0))"

definition daysIn :: "nat \<Rightarrow> int \<Rightarrow> nat" where
  "daysIn m year =
     (if m = 2 then (if isLeap year then 29 else 28)
      else if m = 4 \<or> m = 6 \<or> m = 9 \<or> m = 11 then 30 else 31)"

text \<open>Days from 1970-01-01 to the given civil date (floor division throughout).\<close>

definition daysFromCivil :: "int \<Rightarrow> int \<Rightarrow> int \<Rightarrow> int" where
  "daysFromCivil year m d =
     (let y = (if m \<le> 2 then year - 1 else year);
          era = y div 400;
          yoe = y - era * 400;
          doy = (153 * (if m > 2 then m - 3 else m + 9) + 2) div 5 + d - 1;
          doe = yoe * 365 + yoe div 4 - yoe div 100 + doy
      in era * 146097 + doe - 719468)"

text \<open>
  The civil date of a day number, as package \<open>time\<close> finds it: the 400-year cycle, then the
  century, the four-year cycle and the year within them (the last century of a 400-year cycle
  and the last year of a four-year cycle are one day longer, hence the corrections
  \<open>n - n div 4\<close>), then the month and the day. Years run from March to February here.
\<close>

definition civilFromDays :: "int \<Rightarrow> int \<times> int \<times> int" where
  "civilFromDays z0 =
     (let z = z0 + 719468;
          era = z div 146097;
          doe = z - era * 146097;
          n100 = doe div 36524;
          c = n100 - n100 div 4;
          d1 = doe - 36524 * c;
          q = d1 div 1461;
          d2 = d1 - 1461 * q;
          n1 = d2 div 365;
          r = n1 - n1 div 4;
          doy = d2 - 365 * r;
          y = 100 * c + 4 * q + r + era * 400;
          mp = (5 * doy + 2) div 153;
          d = doy - (153 * mp + 2) div 5 + 1;
          m = (if mp < 10 then mp + 3 else mp - 9)
      in (if m \<le> 2 then y + 1 else y, m, d))"

definition nsPerSecond :: int where
  "nsPerSecond = 1000000000"

text \<open>\<open>time.Date(year, month, day, hour, min, sec, nsec, time.UTC)\<close> on in-range fields.\<close>

definition DateUTC :: "int \<Rightarrow> nat \<Rightarrow> nat \<Rightarrow> nat \<Rightarrow> nat \<Rightarrow> nat \<Rightarrow> int \<Rightarrow> Time" where
  "DateUTC year month day hour minute sec nsec =
     ((daysFromCivil year (int month) (int day) * 86400
        + int hour * 3600 + int minute * 60 + int sec) * nsPerSecond + nsec)"

subsection \<open>Fixed-width integers\<close>

text \<open>
  The Makefile builds for amd64 and arm64 only, where Go's \<open>int\<close> has 64 bits. Arithmetic on
  \<open>int\<close> and \<open>int64\<close> wraps around; \<open>int64 x\<close> is the value that the 64-bit result holds when
  the exact result is \<open>x\<close>. Arithmetic on \<open>uint64\<close> that is converted to \<open>int64\<close> at the end
  gives the same value.
\<close>

definition int64 :: "int \<Rightarrow> int" where
  "int64 x = (x + 2 ^ 63) mod 2 ^ 64 - 2 ^ 63"

subsection \<open>Locations, \<open>time.Date\<close> and \<open>Time.AddDate\<close>\<close>

text \<open>
  A \<open>*time.Location\<close> is modelled by its method \<open>lookup\<close>: for a Unix time in seconds it
  gives the offset of the zone in force then (seconds east of UTC) and the Unix times
  \<open>start \<le> sec < end\<close> between which that zone is in force. \<open>time.Local\<close> is the location of the
  host; it is an argument of the model.
\<close>

record Location =
  lookup :: "int \<Rightarrow> int \<times> int \<times> int"

text \<open>\<open>time.UTC\<close>, and \<open>time.FixedZone(name, offset)\<close>: one zone, in force at all times.\<close>

definition alpha :: int where
  "alpha = - (2 ^ 63)"

definition omega :: int where
  "omega = 2 ^ 63 - 1"

definition FixedZone :: "int \<Rightarrow> Location" where
  "FixedZone offset = \<lparr>lookup = (\<lambda>sec. (offset, alpha, omega))\<rparr>"

definition UTC :: Location where
  "UTC = FixedZone 0"

definition unixToInternal :: int where
  "unixToInternal = 62135596800"

text \<open>
  The seconds on the wall clock of \<open>loc\<close> at the instant \<open>t\<close>, counted from 1970-01-01 00:00:00
  of that clock (\<open>t.abs()\<close>, less the constant shift to the year zero of package \<open>time\<close>). The
  instant \<open>t\<close> is a reading of the clock, so that the sum is in range.
\<close>

definition wallSeconds :: "Location \<Rightarrow> Time \<Rightarrow> int" where
  "wallSeconds loc t =
     (case lookup loc (t div nsPerSecond) of (offset, zoneStart, zoneEnd) \<Rightarrow>
        t div nsPerSecond + offset)"

text \<open>
  \<open>time.Date(year, month, day, hour, min, sec, nsec, loc)\<close> for a month, hour, minute, second
  and nanosecond in range, where the normalisation at its start changes nothing. The day is
  any \<open>int\<close>: it is added to the day count as it is. The seconds are computed in 64 bits; the
  zone is looked up at the wall-clock reading taken as a Unix time, and once more at the
  corrected time when that falls outside the period of the zone found. The result is kept as
  seconds from the year 1, again in 64 bits.
\<close>

definition time_Date ::
    "int \<Rightarrow> int \<Rightarrow> int \<Rightarrow> int \<Rightarrow> int \<Rightarrow> int \<Rightarrow> int \<Rightarrow> Location \<Rightarrow> Time" where
  "time_Date year month day hour minute sec nsec loc =
     (let unix = int64 (daysFromCivil year month day * 86400 + hour * 3600 + minute * 60 + sec)
      in case lookup loc unix of (offset, zoneStart, zoneEnd) \<Rightarrow>
           let unix' =
                 (if offset \<noteq> 0 then
                    (let utc = int64 (unix - offset);
                         offset' = (if utc < zoneStart \<or> utc \<ge> zoneEnd
                                    then fst (lookup loc utc) else offset)
                     in int64 (unix - offset'))
                  else unix)
           in (int64 (unix' + unixToInternal) - unixToInternal) * nsPerSecond + nsec)"

text \<open>
  \<open>t.AddDate(0, 0, days)\<close> for a time \<open>t\<close> in the location \<open>loc\<close>: the date and the clock of \<open>t\<close>
  are read in \<open>loc\<close>, and \<open>time.Date\<close> is called with \<open>day + days\<close> and the same clock. This is
  the same wall-clock time \<open>days\<close> calendar days later; where the offset of \<open>loc\<close> changes in
  between, the instants are not \<open>days\<close> times 24 hours apart.
\<close>

definition AddDate_days :: "Location \<Rightarrow> Time \<Rightarrow> int \<Rightarrow> Time" where
  "AddDate_days loc t days =
     (let wall = wallSeconds loc t;
          sod = wall mod 86400
      in case civilFromDays (wall div 86400) of (year, month, day) \<Rightarrow>
           time_Date year month (int64 (day + days))
             (sod div 3600) (sod mod 3600 div 60) (sod mod 60) (t mod nsPerSecond) loc)"

subsection \<open>Digits\<close>

definition isDigit :: "char \<Rightarrow> bool" where
  "isDigit c = (48 \<le> (of_char c :: nat) \<and> (of_char c :: nat) \<le> 57)"

definition digitVal :: "char \<Rightarrow> nat" where
  "digitVal c = (of_char c :: nat) - 48"

definition digitChar :: "nat \<Rightarrow> char" where
  "digitChar n = ''0123456789'' ! (n mod 10)"

text \<open>\<open>isDigit(s, i)\<close> of package \<open>time\<close>: false beyond the end of \<open>s\<close>.\<close>

definition isDigitAt :: "string \<Rightarrow> nat \<Rightarrow> bool" where
  "isDigitAt s i = (i < length s \<and> isDigit (s ! i))"

definition digitsVal :: "string \<Rightarrow> nat" where
  "digitsVal s = foldl (\<lambda>a c. 10 * a + digitVal c) 0 s"

text \<open>\<open>getnum(s, fixed)\<close>: one or two leading digits; exactly two when \<open>fixed\<close>.\<close>

definition getnum :: "string \<Rightarrow> bool \<Rightarrow> (nat \<times> string) option" where
  "getnum s fixed =
     (if \<not> isDigitAt s 0 then None
      else if \<not> isDigitAt s 1 then
        (if fixed then None else Some (digitVal (s ! 0), drop 1 s))
      else Some (digitVal (s ! 0) * 10 + digitVal (s ! 1), drop 2 s))"

text \<open>
  \<open>atoi\<close> of package \<open>time\<close>: an optional sign, then digits only. (The overflow error of
  \<open>leadingInt\<close> needs more than 18 digits; \<open>atoi\<close> is called on four bytes.)
\<close>

definition atoi :: "string \<Rightarrow> int option" where
  "atoi s0 =
     (let neg = (s0 \<noteq> [] \<and> hd s0 = CHR ''-'');
          s = (if s0 \<noteq> [] \<and> (hd s0 = CHR ''-'' \<or> hd s0 = CHR ''+'') then tl s0 else s0);
          q = digitsVal (takeWhile isDigit s);
          rem = dropWhile isDigit s
      in if rem \<noteq> [] then None
         else Some (if neg then - int q else int q))"

subsection \<open>\<open>time.Parse\<close> for the two layouts in use\<close>

text \<open>
  The year, month and day chunks \<open>2006\<close>, \<open>01\<close>, \<open>02\<close> shared by both layouts: four digits,
  then two fixed two-digit numbers; the month is range-checked at once, the day after the
  whole value has been read.
\<close>

definition parseYMD :: "string \<Rightarrow> ((int \<times> nat \<times> nat) \<times> string) option" where
  "parseYMD v =
     (if length v < 4 \<or> \<not> isDigitAt v 0 then None
      else case atoi (take 4 v) of
        None \<Rightarrow> None
      | Some year \<Rightarrow>
          (case getnum (drop 4 v) True of
             None \<Rightarrow> None
           | Some (month, v2) \<Rightarrow>
               if month \<le> 0 \<or> 12 < month then None
               else (case getnum v2 True of
                       None \<Rightarrow> None
                     | Some (day, v3) \<Rightarrow> Some ((year, month, day), v3))))"

text \<open>
  A fractional second in the value that the layout does not have is accepted after the
  seconds: a period or comma followed by digits, of which nine count.
\<close>

definition parseFraction :: "string \<Rightarrow> int \<times> string" where
  "parseFraction v =
     (if 2 \<le> length v \<and> (v ! 0 = CHR ''.'' \<or> v ! 0 = CHR '','') \<and> isDigitAt v 1 then
        (let ds = takeWhile isDigit (drop 1 v);
             kept = take 9 ds
         in (int (digitsVal kept) * 10 ^ (9 - length kept), drop (1 + length ds) v))
      else (0, v))"

text \<open>\<open>time.Parse("20060102-150405", v)\<close>; \<open>None\<close> is the parse error.\<close>

definition Parse_timestamp :: "string \<Rightarrow> Time option" where
  "Parse_timestamp v =
     (case parseYMD v of
        None \<Rightarrow> None
      | Some ((year, month, day), v3) \<Rightarrow>
          if v3 = [] \<or> hd v3 \<noteq> CHR ''-'' then None
          else (case getnum (tl v3) False of
             None \<Rightarrow> None
           | Some (hour, v4) \<Rightarrow>
               if 24 \<le> hour then None
               else (case getnum v4 True of
                  None \<Rightarrow> None
                | Some (minute, v5) \<Rightarrow>
                    if 60 \<le> minute then None
                    else (case getnum v5 True of
                       None \<Rightarrow> None
                     | Some (sec, v6) \<Rightarrow>
                         if 60 \<le> sec then None
                         else (case parseFraction v6 of
                            (nsec, v7) \<Rightarrow>
                              if v7 \<noteq> [] then None
                              else if day < 1 \<or> daysIn month year < day then None
                              else Some (DateUTC year month day hour minute sec nsec))))))"

text \<open>\<open>time.Parse("20060102", v)\<close>.\<close>

definition Parse_date :: "string \<Rightarrow> Time option" where
  "Parse_date v =
     (case parseYMD v of
        None \<Rightarrow> None
      | Some ((year, month, day), v3) \<Rightarrow>
          if v3 \<noteq> [] then None
          else if day < 1 \<or> daysIn month year < day then None
          else Some (DateUTC year month day 0 0 0 0))"

subsection \<open>\<open>Time.Format\<close> for the two layouts in use\<close>

fun decimal :: "nat \<Rightarrow> string" where
  "decimal n = (if n < 10 then [digitChar n] else decimal (n div 10) @ [digitChar (n mod 10)])"

declare decimal.simps [simp del]

text \<open>\<open>appendInt(b, x, width)\<close>: a sign for negative numbers, then zero padding to \<open>width\<close>.\<close>

definition appendInt :: "int \<Rightarrow> nat \<Rightarrow> string" where
  "appendInt x width =
     (let ds = decimal (nat \<bar>x\<bar>)
      in (if x < 0 then ''-'' else '''') @ replicate (width - length ds) (CHR ''0'') @ ds)"

definition Format_date :: "Time \<Rightarrow> string" where
  "Format_date t =
     (case civilFromDays ((t div nsPerSecond) div 86400) of
        (year, month, day) \<Rightarrow> appendInt year 4 @ appendInt month 2 @ appendInt day 2)"

definition Format_timestamp :: "Time \<Rightarrow> string" where
  "Format_timestamp t =
     (let sod = (t div nsPerSecond) mod 86400
      in Format_date t @ ''-'' @ appendInt (sod div 3600) 2
           @ appendInt ((sod mod 3600) div 60) 2 @ appendInt (sod mod 60) 2)"

subsection \<open>The canonical timestamp, stated without the parser\<close>

text \<open>
  Fifteen bytes \<open>YYYYMMDD-HHMMSS\<close>: digits everywhere but at index 8, which is the
  separator, and fields that denote a calendar date and a time of day.
\<close>

definition tsYear :: "string \<Rightarrow> int" where
  "tsYear ts = int (digitsVal (take 4 ts))"

definition tsMonth :: "string \<Rightarrow> nat" where
  "tsMonth ts = digitsVal (take 2 (drop 4 ts))"

definition tsDay :: "string \<Rightarrow> nat" where
  "tsDay ts = digitsVal (take 2 (drop 6 ts))"

definition tsHour :: "string \<Rightarrow> nat" where
  "tsHour ts = digitsVal (take 2 (drop 9 ts))"

definition tsMinute :: "string \<Rightarrow> nat" where
  "tsMinute ts = digitsVal (take 2 (drop 11 ts))"

definition tsSecond :: "string \<Rightarrow> nat" where
  "tsSecond ts = digitsVal (take 2 (drop 13 ts))"

definition validDate :: "int \<Rightarrow> nat \<Rightarrow> nat \<Rightarrow> bool" where
  "validDate year month day =
     (1 \<le> month \<and> month \<le> 12 \<and> 1 \<le> day \<and> day \<le> daysIn month year)"

definition canonicalTimestamp :: "string \<Rightarrow> bool" where
  "canonicalTimestamp ts =
     (length ts = 15 \<and> ts ! 8 = CHR ''-''
      \<and> list_all isDigit (take 8 ts) \<and> list_all isDigit (drop 9 ts)
      \<and> validDate (tsYear ts) (tsMonth ts) (tsDay ts)
      \<and> tsHour ts < 24 \<and> tsMinute ts < 60 \<and> tsSecond ts < 60)"

text \<open>The instant a canonical timestamp denotes.\<close>

definition timestampInstant :: "string \<Rightarrow> Time" where
  "timestampInstant ts =
     DateUTC (tsYear ts) (tsMonth ts) (tsDay ts) (tsHour ts) (tsMinute ts) (tsSecond ts) 0"

text \<open>The eight-byte calendar date \<open>YYYYMMDD\<close>.\<close>

definition canonicalDate :: "string \<Rightarrow> bool" where
  "canonicalDate ds =
     (length ds = 8 \<and> list_all isDigit ds \<and> validDate (tsYear ds) (tsMonth ds) (tsDay ds))"

section \<open>Errors and panics\<close>

text \<open>
  The errors that the functions below return, and the run-time panics of Go that they could
  raise, as values: a function that can fail returns \<open>error + 'a\<close>, with \<open>Inl\<close> the error.
\<close>

datatype error =
    ServiceNotFound
  | NoBackupsFound
  | NoBackupsMatch
  | InvalidDateFormat string
  | SourcePathMissing
  | TempDirFailed
  | TempFileFailed
  | CreateArchiveFailed
  | ArchiveSizeFailed
  | BelowMinimumSize int int
  | SeekFailed
  | UploadFailed
  | NilDereference
  | RelError
  | IndexOutOfRange
  | SliceOutOfRange

text \<open>\<open>xs[i]\<close> and \<open>xs[lo:hi]\<close> as Go evaluates them: out of range, they panic.\<close>

definition index :: "'a list \<Rightarrow> nat \<Rightarrow> error + 'a" where
  "index xs i = (if i < length xs then Inr (xs ! i) else Inl IndexOutOfRange)"

definition slice :: "'a list \<Rightarrow> nat \<Rightarrow> nat \<Rightarrow> error + 'a list" where
  "slice xs lo hi =
     (if lo \<le> hi \<and> hi \<le> length xs then Inr (take (hi - lo) (drop lo xs))
      else Inl SliceOutOfRange)"

text \<open>
  A loop that appends what its body yields, round after round (\<open>xs = append(xs, ...)\<close>);
  the first panic ends it.
\<close>

fun appendAll :: "(error + 'a list) list \<Rightarrow> error + 'a list" where
  "appendAll [] = Inr []"
| "appendAll (r # rs) =
     (case r of
        Inl e \<Rightarrow> Inl e
      | Inr xs \<Rightarrow>
          (case appendAll rs of
             Inl e \<Rightarrow> Inl e
           | Inr ys \<Rightarrow> Inr (xs @ ys)))"

section \<open>The object-key codec (internal/storage/s3.go)\<close>

record S3Client =
  bucket :: string
  prefix :: string

record BackupInfo =
  Service :: string
  Path :: string
  Date :: Time
  Key :: string
  Size :: int
  ETag :: string

definition buildKey :: "S3Client \<Rightarrow> string \<Rightarrow> string \<Rightarrow> string \<Rightarrow> string" where
  "buildKey s service pathName timestamp =
     Join [prefix s, service, pathName, timestamp @ ''.tar.gz''] ''/''"

text \<open>
  \<open>parseKey\<close> returns a record or \<open>nil\<close> (here \<open>None\<close>). It has no error result; \<open>Inl\<close> stands
  for a panic of one of its index expressions.
\<close>

definition parseKey :: "S3Client \<Rightarrow> string \<Rightarrow> error + BackupInfo option" where
  "parseKey s key =
     (if \<not> HasPrefix key (prefix s) then Inr None
      else
        let relativePath = TrimPrefix key (prefix s @ ''/'');
            parts = Split relativePath (CHR ''/'')
        in if length parts < 3 then Inr None
           else
             (case index parts 0 of
                Inl e \<Rightarrow> Inl e
              | Inr service \<Rightarrow>
             (case slice parts 1 (length parts - 1) of
                Inl e \<Rightarrow> Inl e
              | Inr middle \<Rightarrow>
             (case index parts (length parts - 1) of
                Inl e \<Rightarrow> Inl e
              | Inr filename \<Rightarrow>
                  let pathName = Join middle ''/''
                  in if \<not> HasSuffix filename ''.tar.gz'' then Inr None
                     else
                       let timestamp = TrimSuffix filename ''.tar.gz''
                       in if length timestamp \<noteq> 15 then Inr None
                          else
                            (case index timestamp 8 of
                               Inl e \<Rightarrow> Inl e
                             | Inr sep \<Rightarrow>
                                 if sep \<noteq> CHR ''-'' then Inr None
                                 else
                                   (case Parse_timestamp timestamp of
                                      None \<Rightarrow> Inr None
                                    | Some date \<Rightarrow>
                                        Inr (Some \<lparr>Service = service, Path = pathName,
                                                   Date = date, Key = key, Size = 0,
                                                   ETag = ''''\<rparr>)))))))"

text \<open>\<open>strings.Trim(s, "\"")\<close>.\<close>

definition TrimQuotes :: "string \<Rightarrow> string" where
  "TrimQuotes s =
     rev (dropWhile (\<lambda>c. c = CHR 0x22) (rev (dropWhile (\<lambda>c. c = CHR 0x22) s)))"

text \<open>
  The loop of \<open>List\<close> over the objects of the store (key, size if known, tag): it keeps the
  records that \<open>parseKey\<close> decodes and fills in size and tag.
\<close>

fun List_objects ::
    "S3Client \<Rightarrow> (string \<times> int option \<times> string) list \<Rightarrow> error + BackupInfo list" where
  "List_objects s [] = Inr []"
| "List_objects s ((key, objSize, etag) # objs) =
     (case parseKey s key of
        Inl e \<Rightarrow> Inl e
      | Inr None \<Rightarrow> List_objects s objs
      | Inr (Some backup) \<Rightarrow>
          (case List_objects s objs of
             Inl e \<Rightarrow> Inl e
           | Inr backups \<Rightarrow>
               Inr ((case objSize of
                       Some n \<Rightarrow> backup\<lparr>Size := n, ETag := TrimQuotes etag\<rparr>
                     | None \<Rightarrow> backup\<lparr>ETag := TrimQuotes etag\<rparr>) # backups)))"

section \<open>Grouping records in a Go map of slices\<close>

text \<open>
  \<open>pathGroups[key] = append(pathGroups[key], backup)\<close> over the records in order. The map is
  an association list whose keys stand in the order of their first occurrence; each group
  keeps the order of the input. Go ranges over a map in an unspecified order: where the
  groups are ranged over below, no theorem depends on the order chosen here.
\<close>

fun appendToGroup :: "string \<Rightarrow> 'a \<Rightarrow> (string \<times> 'a list) list \<Rightarrow> (string \<times> 'a list) list" where
  "appendToGroup k x [] = [(k, [x])]"
| "appendToGroup k x ((k', g) # groups) =
     (if k = k' then (k', g @ [x]) # groups else (k', g) # appendToGroup k x groups)"

definition groupByKey :: "('a \<Rightarrow> string) \<Rightarrow> 'a list \<Rightarrow> (string \<times> 'a list) list" where
  "groupByKey keyOf xs = foldl (\<lambda>groups x. appendToGroup (keyOf x) x groups) [] xs"

text \<open>
  \<open>sort.Slice(pathBackups, func(i, j) { return pathBackups[i].Date.After(pathBackups[j].Date) })\<close>:
  newest first. \<open>sort.Slice\<close> is not stable: it leaves the order among records of equal date
  open. The order taken here is that of a stable sort. Where the dates of the records are
  distinct, as they are within one group of a listing (one key for each second), there is
  only one newest-first order (lemma \<open>sortNewestFirst_unique\<close> below).
\<close>

definition sortNewestFirst :: "BackupInfo list \<Rightarrow> BackupInfo list" where
  "sortNewestFirst bs = sort_key (\<lambda>b. - Date b) bs"

definition sortOldestFirst :: "BackupInfo list \<Rightarrow> BackupInfo list" where
  "sortOldestFirst bs = sort_key Date bs"

section \<open>Retention selection (package cleanup)\<close>

definition pathKey :: "BackupInfo \<Rightarrow> string" where
  "pathKey backup = Service backup @ ''/'' @ Path backup"

text \<open>
  The records of one group that may be deleted at all: \<open>pathBackups[keepLatest:]\<close> or all.
  The slice expression panics when \<open>keepLatest\<close> exceeds the length.
\<close>

definition candidates :: "int \<Rightarrow> BackupInfo list \<Rightarrow> error + BackupInfo list" where
  "candidates keepLatest pathBackups =
     (if keepLatest > 0 \<and> int (length pathBackups) > keepLatest
      then slice pathBackups (nat keepLatest) (length pathBackups)
      else Inr pathBackups)"

text \<open>
  The body of the loop over the groups: sort the group newest first, take its candidates,
  and mark those whose date is before the cutoff.
\<close>

definition deletionsOfGroup ::
    "Time \<Rightarrow> int \<Rightarrow> BackupInfo list \<Rightarrow> error + BackupInfo list" where
  "deletionsOfGroup cutoffDate keepLatest pathBackups =
     (case candidates keepLatest (sortNewestFirst pathBackups) of
        Inl e \<Rightarrow> Inl e
      | Inr cands \<Rightarrow> Inr (filter (\<lambda>backup. Date backup < cutoffDate) cands))"

text \<open>
  \<open>selectBackupsForDeletion\<close>, with the clock reading \<open>now\<close> of \<open>time.Now()\<close> and the location
  \<open>local\<close> of the host (\<open>time.Local\<close>, which \<open>time.Now()\<close> carries) as arguments. The cutoff is
  \<open>time.Now().AddDate(0, 0, -olderThanDays)\<close>.
\<close>

definition selectBackupsForDeletion ::
    "Time \<Rightarrow> Location \<Rightarrow> BackupInfo list \<Rightarrow> int \<Rightarrow> int \<Rightarrow> error + BackupInfo list" where
  "selectBackupsForDeletion now local backups olderThanDays keepLatest =
     (if backups = [] then Inr []
      else
        let cutoffDate = AddDate_days local now (int64 (- olderThanDays));
            pathGroups = groupByKey pathKey backups
        in case appendAll (map (\<lambda>(pathKey, pathBackups).
                     deletionsOfGroup cutoffDate keepLatest pathBackups) pathGroups) of
             Inl e \<Rightarrow> Inl e
           | Inr toDelete \<Rightarrow> Inr (sortOldestFirst toDelete))"

text \<open>
  What these functions return when no slice is out of range, which is always so (lemma
  \<open>selectBackupsForDeletion_eq\<close> below): the candidates of a group, the records of a group
  to delete, and the whole selection for a cutoff.
\<close>

definition candidateRecords :: "int \<Rightarrow> BackupInfo list \<Rightarrow> BackupInfo list" where
  "candidateRecords keepLatest pathBackups =
     (if keepLatest > 0 \<and> int (length pathBackups) > keepLatest
      then drop (nat keepLatest) pathBackups
      else pathBackups)"

definition deletionRecords :: "Time \<Rightarrow> int \<Rightarrow> BackupInfo list \<Rightarrow> BackupInfo list" where
  "deletionRecords cutoffDate keepLatest pathBackups =
     filter (\<lambda>backup. Date backup < cutoffDate)
       (candidateRecords keepLatest (sortNewestFirst pathBackups))"

definition toDeleteRecords :: "Time \<Rightarrow> BackupInfo list \<Rightarrow> int \<Rightarrow> BackupInfo list" where
  "toDeleteRecords cutoffDate backups keepLatest =
     sortOldestFirst
       (concat (map (\<lambda>(pathKey, pathBackups). deletionRecords cutoffDate keepLatest pathBackups)
                  (groupByKey pathKey backups)))"

text \<open>
  What \<open>List\<close> returns after \<open>DeleteMultiple\<close> has deleted the keys of \<open>toDelete\<close>: the records
  whose key was not deleted.
\<close>

definition afterDeletion :: "BackupInfo list \<Rightarrow> BackupInfo list \<Rightarrow> BackupInfo list" where
  "afterDeletion backups toDelete = filter (\<lambda>b. Key b \<notin> set (map Key toDelete)) backups"

section \<open>Restore selection (package restore)\<close>

record RestoreOptions =
  ServiceName :: string
  FromS3 :: bool
  FromLocal :: string
  Date_opt :: string
  Latest :: bool
  DryRun :: bool
  Force :: bool
  DestPath :: string

text \<open>
  \<open>parseDate\<close>: the parsed time and whether it is an exact timestamp, or the error. The
  byte \<open>dateStr[8]\<close> is read only when the length is 15 (\<open>&&\<close> stops at a false operand).
  (The field \<open>Date\<close> of \<open>RestoreOptions\<close> is \<open>Date_opt\<close> here: \<open>Date\<close> is the record's field.)
\<close>

definition parseDate :: "string \<Rightarrow> error + (Time \<times> bool)" where
  "parseDate dateStr =
     (case (if length dateStr = 15 \<and> dateStr ! 8 = CHR ''-'' then Parse_timestamp dateStr
            else None) of
        Some t \<Rightarrow> Inr (t, True)
      | None \<Rightarrow>
          (case (if length dateStr = 8 then Parse_date dateStr else None) of
             Some t \<Rightarrow> Inr (t, False)
           | None \<Rightarrow> Inl (InvalidDateFormat dateStr)))"

text \<open>
  The first part of \<open>selectBackups\<close>: the date filter. When \<open>parseDate\<close> fails the code logs
  the warning "Invalid date format ..., ignoring date filter" and goes on with all records.
\<close>

definition dateFilter :: "BackupInfo list \<Rightarrow> RestoreOptions \<Rightarrow> BackupInfo list" where
  "dateFilter backups opts =
     (if Date_opt opts \<noteq> [] then
        (case parseDate (Date_opt opts) of
           Inl err \<Rightarrow> backups
         | Inr (targetDate, isExactTime) \<Rightarrow>
             filter (\<lambda>backup.
                       if isExactTime
                       then Format_timestamp (Date backup) = Format_timestamp targetDate
                       else Format_date (Date backup) = Format_date targetDate) backups)
      else backups)"

text \<open>
  The body of the loop over the path groups: sort the group newest first and take its first
  record, or all of it. \<open>pathBackups[0]\<close> panics on an empty group.
\<close>

definition chosenOfGroup :: "RestoreOptions \<Rightarrow> BackupInfo list \<Rightarrow> error + BackupInfo list" where
  "chosenOfGroup opts pathBackups =
     (let sorted = sortNewestFirst pathBackups
      in if Latest opts \<or> Date_opt opts = [] then
           (case index sorted 0 of
              Inl e \<Rightarrow> Inl e
            | Inr newest \<Rightarrow> Inr [newest])
         else Inr sorted)"

definition selectBackups :: "BackupInfo list \<Rightarrow> RestoreOptions \<Rightarrow> error + BackupInfo list" where
  "selectBackups backups0 opts =
     (let backups = dateFilter backups0 opts
      in if backups = [] then Inr []
         else
           let pathGroups = groupByKey Path backups
           in appendAll (map (\<lambda>(path, pathBackups). chosenOfGroup opts pathBackups)
                           pathGroups))"

text \<open>
  What \<open>selectBackups\<close> returns when no group is empty, which is always so (lemma
  \<open>selectBackups_eq\<close> below): the records chosen from one group, and from all of them.
\<close>

definition chosenRecords :: "RestoreOptions \<Rightarrow> BackupInfo list \<Rightarrow> BackupInfo list" where
  "chosenRecords opts pathBackups =
     (if Latest opts \<or> Date_opt opts = [] then [sortNewestFirst pathBackups ! 0]
      else sortNewestFirst pathBackups)"

definition selectedRecords :: "BackupInfo list \<Rightarrow> RestoreOptions \<Rightarrow> BackupInfo list" where
  "selectedRecords backups opts =
     concat (map (\<lambda>(path, pathBackups). chosenRecords opts pathBackups)
               (groupByKey Path (dateFilter backups opts)))"

text \<open>
  \<open>RestoreService\<close> up to the selection, for a restore from the store (\<open>FromLocal\<close> empty):
  \<open>exists\<close> says whether the service is configured, \<open>listing\<close> is what \<open>List\<close> returned. The
  result is the error that ends the run or the records that the run goes on to restore.
\<close>

definition RestoreService_selection ::
    "bool \<Rightarrow> BackupInfo list \<Rightarrow> RestoreOptions \<Rightarrow> error + BackupInfo list" where
  "RestoreService_selection exists listing opts =
     (if \<not> exists then Inl ServiceNotFound
      else if listing = [] then Inl NoBackupsFound
      else
        (case selectBackups listing opts of
           Inl e \<Rightarrow> Inl e
         | Inr selectedBackups \<Rightarrow>
             if selectedBackups = [] then Inl NoBackupsMatch else Inr selectedBackups))"

section \<open>The include filter of the archiver (package archive)\<close>

text \<open>
  Of Go's \<open>path/filepath\<close> the filter calls \<open>Rel\<close> and \<open>FromSlash\<close>. They are modelled for the
  builds whose \<open>Separator\<close> is \<open>/\<close> (linux, darwin), where \<open>FromSlash\<close> changes nothing and a
  path has no volume name. \<open>Clean\<close> works on the elements of the path: empty elements and
  \<open>.\<close> go, \<open>..\<close> removes the element before it, or stays when there is none and the path is
  not rooted.
\<close>

definition Separator :: char where
  "Separator = CHR ''/''"

definition FromSlash :: "string \<Rightarrow> string" where
  "FromSlash path = map (\<lambda>c. if c = CHR ''/'' then Separator else c) path"

fun cleanElems :: "bool \<Rightarrow> string list \<Rightarrow> string list \<Rightarrow> string list" where
  "cleanElems rooted [] out = rev out"
| "cleanElems rooted (e # es) out =
     (if e = [] \<or> e = ''.'' then cleanElems rooted es out
      else if e = ''..'' then
        (case out of
           [] \<Rightarrow> if rooted then cleanElems rooted es [] else cleanElems rooted es [''..'']
         | lastElem # below \<Rightarrow>
             if lastElem = ''..'' then cleanElems rooted es (''..'' # out)
             else cleanElems rooted es below)
      else cleanElems rooted es (e # out))"

definition Clean :: "string \<Rightarrow> string" where
  "Clean path =
     (let rooted = (path \<noteq> [] \<and> hd path = Separator);
          out = (if rooted then [Separator] else [])
                  @ Join (cleanElems rooted (Split path Separator) []) [Separator]
      in if out = [] then ''.'' else out)"

text \<open>
  The loop of \<open>Rel\<close> that walks over the leading elements that \<open>base\<close> and \<open>targ\<close> share. It
  returns \<open>base[b0:]\<close>, \<open>targ[t0:]\<close> and \<open>base[b0:bi]\<close>, the element of \<open>base\<close> at which the
  two differ (empty when one of them is used up).
\<close>

function relLoop :: "string \<Rightarrow> string \<Rightarrow> string \<times> string \<times> string" where
  "relLoop base targ =
     (if base = [] \<or> targ = [] then (base, targ, [])
      else
        let belem = takeWhile (\<lambda>c. c \<noteq> Separator) base;
            telem = takeWhile (\<lambda>c. c \<noteq> Separator) targ
        in if telem \<noteq> belem then (base, targ, belem)
           else relLoop (drop (length belem + 1) base) (drop (length telem + 1) targ))"
  by pat_completeness auto
termination
  by (relation "measure (\<lambda>(base, targ). length base)") auto

declare relLoop.simps [simp del]

definition Rel :: "string \<Rightarrow> string \<Rightarrow> error + string" where
  "Rel basepath targpath =
     (let base0 = Clean basepath;
          targ = Clean targpath
      in if targ = base0 then Inr ''.''
         else
           let base = (if base0 = ''.'' then [] else base0);
               baseSlashed = (base \<noteq> [] \<and> hd base = Separator);
               targSlashed = (targ \<noteq> [] \<and> hd targ = Separator)
           in if baseSlashed \<noteq> targSlashed then Inl RelError
              else (case relLoop base targ of
                      (baseRest, targRest, belem) \<Rightarrow>
                        if belem = ''..'' then Inl RelError
                        else if baseRest \<noteq> [] then
                          Inr (''..''
                               @ concat (replicate (count_list baseRest Separator)
                                           (Separator # ''..''))
                               @ (if targRest \<noteq> [] then Separator # targRest else []))
                        else Inr targRest))"

text \<open>The loop of \<open>shouldInclude\<close> over the include folders.\<close>

fun includeLoop :: "string \<Rightarrow> string list \<Rightarrow> bool" where
  "includeLoop relPath [] = False"
| "includeLoop relPath (includeFolder0 # rest) =
     (let includeFolder = FromSlash includeFolder0
      in if HasPrefix relPath includeFolder then True
         else if HasPrefix includeFolder relPath then True
         else includeLoop relPath rest)"

text \<open>\<open>shouldInclude\<close>; the two copies of the archiver in the repository have the same one.\<close>

definition shouldInclude :: "string \<Rightarrow> string \<Rightarrow> string list \<Rightarrow> bool" where
  "shouldInclude path basePath includeFolders =
     (case Rel basePath path of
        Inl err \<Rightarrow> False
      | Inr relPath \<Rightarrow>
          if relPath = ''.'' then True else includeLoop relPath includeFolders)"

section \<open>Backing up one path (package backup)\<close>

record BackupConfig =
  TempDir :: string
  PreserveACLs :: bool
  Compression :: bool
  MinSize :: int

text \<open>
  \<open>BackupResult\<close>; its fields \<open>Service\<close>, \<open>Path\<close> and \<open>BackupInfo\<close> carry the suffix \<open>_res\<close>.
  The duration is left out.
\<close>

record BackupResult =
  Service_res :: string
  Path_res :: string
  BackupInfo_res :: "BackupInfo option"
  ArchiveSize :: int
  Error :: "error option"

text \<open>
  What the file system and the store answer during one \<open>backupPath\<close>: whether each call
  succeeds, the size of the archive file (which depends on whether the archiver compresses),
  and the answers of \<open>PutObject\<close> (the tag) and \<open>HeadObject\<close> (the content length, which may
  be absent) for the first upload and for the retry.
\<close>

record BackupEnv =
  statSource :: bool
  mkdirTemp :: bool
  createTemp :: bool
  createArchive :: "bool \<Rightarrow> bool \<Rightarrow> bool"
  statArchive :: "bool \<Rightarrow> int option"
  seekStart :: bool
  putObject :: "string option"
  headObject :: "int option option"
  seekRetry :: bool
  putObjectRetry :: "string option"
  headObjectRetry :: "int option option"

text \<open>The requests sent to the store, by key.\<close>

datatype storeOp = PutObject string | HeadObject string

fun opKey :: "storeOp \<Rightarrow> string" where
  "opKey (PutObject key) = key"
| "opKey (HeadObject key) = key"

text \<open>The zero \<open>time.Time\<close>, which \<open>time.Parse\<close> returns beside an error.\<close>

definition zeroTime :: Time where
  "zeroTime = DateUTC 1 1 1 0 0 0 0"

text \<open>
  \<open>Upload\<close>, with the clock reading and the store's two answers as arguments; it returns its
  result and the requests it sent. When \<open>HeadObject\<close> fails the code logs a warning and then
  reads \<open>head.ContentLength\<close> of the missing answer, which panics.
\<close>

definition Upload ::
    "S3Client \<Rightarrow> Time \<Rightarrow> string option \<Rightarrow> int option option \<Rightarrow> string \<Rightarrow> string
       \<Rightarrow> (error + BackupInfo) \<times> storeOp list" where
  "Upload s now put head service pathName =
     (let timestamp = Format_timestamp now;
          key = buildKey s service pathName timestamp
      in case put of
           None \<Rightarrow> (Inl UploadFailed, [PutObject key])
         | Some etag \<Rightarrow>
             (case head of
                None \<Rightarrow> (Inl NilDereference, [PutObject key, HeadObject key])
              | Some contentLength \<Rightarrow>
                  (let backupTime = (case Parse_timestamp timestamp of
                                       Some t \<Rightarrow> t | None \<Rightarrow> zeroTime);
                       objSize = (case contentLength of Some n \<Rightarrow> n | None \<Rightarrow> 0)
                   in (Inr \<lparr>Service = service, Path = pathName, Date = backupTime,
                             Key = key, Size = objSize, ETag = TrimQuotes etag\<rparr>,
                       [PutObject key, HeadObject key]))))"

text \<open>
  The end of \<open>backupPath\<close>, common to both versions: the result of an upload goes into the
  item's result. A panic of \<open>Upload\<close> is kept in the result as \<open>NilDereference\<close>, to tell it
  from the errors that \<open>backupPath\<close> handles.
\<close>

definition finishUpload ::
    "BackupResult \<Rightarrow> (error + BackupInfo) \<times> storeOp list \<Rightarrow> storeOp list
       \<Rightarrow> BackupResult \<times> storeOp list" where
  "finishUpload result up sent =
     (case fst up of
        Inl NilDereference \<Rightarrow> (result\<lparr>Error := Some NilDereference\<rparr>, sent @ snd up)
      | Inl err \<Rightarrow> (result\<lparr>Error := Some UploadFailed\<rparr>, sent @ snd up)
      | Inr backupInfo \<Rightarrow> (result\<lparr>BackupInfo_res := Some backupInfo\<rparr>, sent @ snd up))"

text \<open>
  \<open>backupPath\<close> of \<open>internal/backup/backup.go\<close>: the item's result and the requests sent to the
  store. Every failure ends in a result that carries the error; the function has no other
  way out.
\<close>

definition backupPath ::
    "BackupConfig \<Rightarrow> S3Client \<Rightarrow> BackupEnv \<Rightarrow> Time \<Rightarrow> string \<Rightarrow> string \<Rightarrow> string \<Rightarrow> string list
       \<Rightarrow> BackupResult \<times> storeOp list" where
  "backupPath cfg s env now serviceName pathName pathLocation includeFolders =
     (let result = \<lparr>Service_res = serviceName, Path_res = pathName, BackupInfo_res = None,
                    ArchiveSize = 0, Error = None\<rparr>
      in if \<not> statSource env then (result\<lparr>Error := Some SourcePathMissing\<rparr>, [])
         else if \<not> mkdirTemp env then (result\<lparr>Error := Some TempDirFailed\<rparr>, [])
         else if \<not> createTemp env then (result\<lparr>Error := Some TempFileFailed\<rparr>, [])
         else if \<not> createArchive env (Compression cfg) (PreserveACLs cfg)
           then (result\<lparr>Error := Some CreateArchiveFailed\<rparr>, [])
         else (case statArchive env (Compression cfg) of
                 None \<Rightarrow> (result\<lparr>Error := Some ArchiveSizeFailed\<rparr>, [])
               | Some archiveSize \<Rightarrow>
                   (let result = result\<lparr>ArchiveSize := archiveSize\<rparr>
                    in if MinSize cfg > 0 \<and> ArchiveSize result < MinSize cfg
                         then (result\<lparr>Error := Some (BelowMinimumSize (ArchiveSize result)
                                                       (MinSize cfg))\<rparr>, [])
                       else if \<not> seekStart env then (result\<lparr>Error := Some SeekFailed\<rparr>, [])
                       else finishUpload result
                              (Upload s now (putObject env) (headObject env) serviceName pathName)
                              [])))"

text \<open>
  \<open>backupPath\<close> of the later version of the package (with progress bars): the same up to the
  upload; a failed upload is tried once more after a seek to the start of the file.
\<close>

definition backupPath_progress ::
    "BackupConfig \<Rightarrow> S3Client \<Rightarrow> BackupEnv \<Rightarrow> Time \<Rightarrow> string \<Rightarrow> string \<Rightarrow> string \<Rightarrow> string list
       \<Rightarrow> BackupResult \<times> storeOp list" where
  "backupPath_progress cfg s env now serviceName pathName pathLocation includeFolders =
     (let result = \<lparr>Service_res = serviceName, Path_res = pathName, BackupInfo_res = None,
                    ArchiveSize = 0, Error = None\<rparr>
      in if \<not> statSource env then (result\<lparr>Error := Some SourcePathMissing\<rparr>, [])
         else if \<not> mkdirTemp env then (result\<lparr>Error := Some TempDirFailed\<rparr>, [])
         else if \<not> createTemp env then (result\<lparr>Error := Some TempFileFailed\<rparr>, [])
         else if \<not> createArchive env (Compression cfg) (PreserveACLs cfg)
           then (result\<lparr>Error := Some CreateArchiveFailed\<rparr>, [])
         else (case statArchive env (Compression cfg) of
                 None \<Rightarrow> (result\<lparr>Error := Some ArchiveSizeFailed\<rparr>, [])
               | Some archiveSize \<Rightarrow>
                   (let result = result\<lparr>ArchiveSize := archiveSize\<rparr>
                    in if MinSize cfg > 0 \<and> ArchiveSize result < MinSize cfg
                         then (result\<lparr>Error := Some (BelowMinimumSize (ArchiveSize result)
                                                       (MinSize cfg))\<rparr>, [])
                       else if \<not> seekStart env then (result\<lparr>Error := Some SeekFailed\<rparr>, [])
                       else
                         (let firstTry = Upload s now (putObject env) (headObject env)
                                        serviceName pathName
                          in case fst firstTry of
                               Inl NilDereference \<Rightarrow> finishUpload result firstTry []
                             | Inl err \<Rightarrow>
                                 if \<not> seekRetry env
                                   then (result\<lparr>Error := Some SeekFailed\<rparr>, snd firstTry)
                                 else finishUpload result
                                        (Upload s now (putObjectRetry env) (headObjectRetry env)
                                           serviceName pathName)
                                        (snd firstTry)
                             | Inr backupInfo \<Rightarrow> finishUpload result firstTry []))))"

definition exConfig :: BackupConfig where
  "exConfig = \<lparr>TempDir = ''/tmp'', PreserveACLs = False, Compression = False, MinSize = 1024\<rparr>"

text \<open>An environment in which every call succeeds and the archive has 512 bytes.\<close>

definition exEnv :: BackupEnv where
  "exEnv = \<lparr>statSource = True, mkdirTemp = True, createTemp = True,
            createArchive = (\<lambda>compression acls. True),
            statArchive = (\<lambda>compression. Some 512),
            seekStart = True, putObject = Some ''etag'', headObject = Some (Some 512),
            seekRetry = True, putObjectRetry = Some ''etag'', headObjectRetry = Some (Some 512)\<rparr>"

section \<open>Concrete records for the examples\<close>

definition exClient :: S3Client where
  "exClient = \<lparr>bucket = ''bucket'', prefix = ''backups''\<rparr>"

text \<open>The record that \<open>List\<close> returns for an archive stored by \<open>Upload\<close> at the given timestamp.\<close>

definition exRecord :: "string \<Rightarrow> string \<Rightarrow> string \<Rightarrow> BackupInfo" where
  "exRecord service pathName timestamp =
     \<lparr>Service = service, Path = pathName, Date = timestampInstant timestamp,
      Key = buildKey exClient service pathName timestamp, Size = 1024, ETag = ''etag''\<rparr>"

definition exOptions :: RestoreOptions where
  "exOptions = \<lparr>ServiceName = ''web'', FromS3 = True, FromLocal = '''', Date_opt = '''',
                Latest = False, DryRun = False, Force = False, DestPath = ''''\<rparr>"

text \<open>
  Three archives of path \<open>data\<close> and one of path \<open>db\<close> of service \<open>web\<close>, and a clock reading
  \<open>exNow\<close> for which a retention of 14 days puts the cutoff at 2024-03-01 12:00:00 UTC on a
  host whose location is UTC.
\<close>

definition exNow :: Time where
  "exNow = timestampInstant ''20240315-120000''"

definition exBackups :: "BackupInfo list" where
  "exBackups =
     [exRecord ''web'' ''data'' ''20240305-030000'',
      exRecord ''web'' ''db'' ''20240220-030500'',
      exRecord ''web'' ''data'' ''20240220-030000'',
      exRecord ''web'' ''data'' ''20240310-030000'']"

text \<open>
  A host on the Eastern time of the United States: standard time, five hours behind UTC, from
  2023-11-05 06:00:00 UTC, and daylight saving time, four hours behind, from 2024-03-10
  07:00:00 UTC to 2024-11-03 06:00:00 UTC. Only these two periods are written out.
\<close>

definition exEastern :: Location where
  "exEastern =
     \<lparr>lookup = (\<lambda>sec. if sec < 1710054000 then (- 18000, 1699164000, 1710054000)
                      else (- 14400, 1710054000, 1730613600))\<rparr>"

section \<open>Facts about the string functions\<close>

lemma Split_nonempty: "Split s c \<noteq> []"
  by (induction s) (auto split: list.splits)

lemma Split_no_sep: "c \<notin> set s \<Longrightarrow> Split s c = [s]"
  by (induction s) auto

lemma Split_append: "Split (a @ c # b) c = Split a c @ Split b c"
  by (induction a) (auto split: list.splits simp: Split_nonempty)

lemma Join_Cons: "ys \<noteq> [] \<Longrightarrow> Join (x # ys) sep = x @ sep @ Join ys sep"
  by (cases ys) auto

lemma Join_Split: "Join (Split s c) [c] = s"
proof (induction s)
  case Nil
  show ?case by simp
next
  case (Cons x xs)
  show ?case
  proof (cases "x = c")
    case True
    with Cons show ?thesis by (simp add: Join_Cons Split_nonempty)
  next
    case False
    obtain w ws where sp: "Split xs c = w # ws"
      using Split_nonempty [of xs c] by (cases "Split xs c") auto
    show ?thesis
    proof (cases ws)
      case Nil
      with Cons sp False show ?thesis by simp
    next
      case (Cons y ys)
      with Cons.IH sp False show ?thesis by simp
    qed
  qed
qed

lemma last_Split_append: "last (Split (a @ c # b) c) = last (Split b c)"
  by (simp only: Split_append) (simp add: Split_nonempty)

lemma HasPrefix_append: "HasPrefix (p @ s) p"
  by (simp add: HasPrefix_def)

lemma TrimPrefix_append: "TrimPrefix (p @ s) p = s"
  by (simp add: TrimPrefix_def HasPrefix_def)

lemma HasSuffix_append: "HasSuffix (s @ x) x"
  by (simp add: HasSuffix_def)

lemma TrimSuffix_append: "TrimSuffix (s @ x) x = s"
  by (simp add: TrimSuffix_def HasSuffix_def)

lemma HasSuffix_decompose: "HasSuffix s x \<Longrightarrow> s = TrimSuffix s x @ x"
  by (simp add: TrimSuffix_def HasSuffix_def) (metis append_take_drop_id)

lemma HasPrefix_decompose: "HasPrefix s p \<Longrightarrow> s = p @ TrimPrefix s p"
  by (simp add: TrimPrefix_def HasPrefix_def) (metis append_take_drop_id)

lemma last_Split_TrimPrefix:
  "last (Split (TrimPrefix key (p @ [c])) c) = last (Split key c)"
proof (cases "HasPrefix key (p @ [c])")
  case True
  from HasPrefix_decompose [OF True]
  have "key = p @ c # TrimPrefix key (p @ [c])" by simp
  then have "last (Split key c) = last (Split (p @ c # TrimPrefix key (p @ [c])) c)" by simp
  then show ?thesis by (simp only: last_Split_append)
next
  case False
  then show ?thesis by (simp add: TrimPrefix_def)
qed

section \<open>The parser accepts exactly the canonical forms\<close>

lemma isDigit_not_sign:
  "isDigit c \<Longrightarrow> c \<noteq> CHR ''-'' \<and> c \<noteq> CHR ''+'' \<and> c \<noteq> CHR ''.'' \<and> c \<noteq> CHR '',''"
  by (auto simp: isDigit_def)

lemma atoi4:
  "isDigit a \<Longrightarrow> atoi [a, b, c, d] =
     (if isDigit b \<and> isDigit c \<and> isDigit d then Some (int (digitsVal [a, b, c, d])) else None)"
  by (auto simp: atoi_def Let_def dest: isDigit_not_sign)

lemma getnum_fixed:
  "getnum (a # b # rest) True =
     (if isDigit a \<and> isDigit b then Some (digitVal a * 10 + digitVal b, rest) else None)"
  by (simp add: getnum_def isDigitAt_def)

lemma getnum_free:
  "getnum (a # b # rest) False =
     (if isDigit a then
        (if isDigit b then Some (digitVal a * 10 + digitVal b, rest)
         else Some (digitVal a, b # rest))
      else None)"
  by (simp add: getnum_def isDigitAt_def)

lemma digitsVal2: "digitsVal [a, b] = digitVal a * 10 + digitVal b"
  by (simp add: digitsVal_def)

lemma length15:
  "length (ts :: 'a list) = 15 \<Longrightarrow>
   \<exists>c0 c1 c2 c3 c4 c5 c6 c7 c8 c9 c10 c11 c12 c13 c14.
     ts = [c0, c1, c2, c3, c4, c5, c6, c7, c8, c9, c10, c11, c12, c13, c14]"
  by (simp add: numeral_eq_Suc length_Suc_conv) blast

lemma length8:
  "length (ts :: 'a list) = 8 \<Longrightarrow>
   \<exists>c0 c1 c2 c3 c4 c5 c6 c7. ts = [c0, c1, c2, c3, c4, c5, c6, c7]"
  by (simp add: numeral_eq_Suc length_Suc_conv) blast

lemma parseYMD_8:
  "parseYMD (c0 # c1 # c2 # c3 # c4 # c5 # c6 # c7 # rest) =
     (if isDigit c0 \<and> isDigit c1 \<and> isDigit c2 \<and> isDigit c3 \<and> isDigit c4 \<and> isDigit c5
         \<and> isDigit c6 \<and> isDigit c7 \<and> 1 \<le> digitsVal [c4, c5] \<and> digitsVal [c4, c5] \<le> 12
      then Some ((int (digitsVal [c0, c1, c2, c3]), digitsVal [c4, c5], digitsVal [c6, c7]), rest)
      else None)"
  by (auto simp: parseYMD_def isDigitAt_def atoi4 getnum_fixed digitsVal2)

lemma parseFraction_Nil: "parseFraction [] = (0, [])"
  by (simp add: parseFraction_def)

lemmas ts_fields = tsYear_def tsMonth_def tsDay_def tsHour_def tsMinute_def tsSecond_def

lemma Parse_timestamp_15:
  "Parse_timestamp [c0, c1, c2, c3, c4, c5, c6, c7, c8, c9, c10, c11, c12, c13, c14] =
     (if canonicalTimestamp [c0, c1, c2, c3, c4, c5, c6, c7, c8, c9, c10, c11, c12, c13, c14]
      then Some (timestampInstant [c0, c1, c2, c3, c4, c5, c6, c7, c8, c9, c10, c11, c12, c13, c14])
      else None)"
  by (auto simp: Parse_timestamp_def parseYMD_8 getnum_fixed getnum_free parseFraction_Nil
      canonicalTimestamp_def timestampInstant_def validDate_def digitsVal2 ts_fields)

lemma Parse_timestamp_canonical:
  "length ts = 15 \<Longrightarrow>
   Parse_timestamp ts = (if canonicalTimestamp ts then Some (timestampInstant ts) else None)"
  using length15 [of ts] Parse_timestamp_15 by (metis (no_types, lifting))

lemma Parse_date_8:
  "Parse_date [c0, c1, c2, c3, c4, c5, c6, c7] =
     (if canonicalDate [c0, c1, c2, c3, c4, c5, c6, c7]
      then Some (DateUTC (tsYear [c0, c1, c2, c3, c4, c5, c6, c7])
                  (tsMonth [c0, c1, c2, c3, c4, c5, c6, c7])
                  (tsDay [c0, c1, c2, c3, c4, c5, c6, c7]) 0 0 0 0)
      else None)"
  by (auto simp: Parse_date_def parseYMD_8 canonicalDate_def validDate_def digitsVal2 ts_fields)

lemma Parse_date_canonical:
  "length ds = 8 \<Longrightarrow>
   Parse_date ds =
     (if canonicalDate ds then Some (DateUTC (tsYear ds) (tsMonth ds) (tsDay ds) 0 0 0 0)
      else None)"
  using length8 [of ds] Parse_date_8 by (metis (no_types, lifting))

lemma canonicalTimestamp_no_slash:
  assumes "canonicalTimestamp ts"
  shows "CHR ''/'' \<notin> set ts"
proof -
  from assms have len: "length ts = 15" by (simp add: canonicalTimestamp_def)
  from length15 [OF len] obtain c0 c1 c2 c3 c4 c5 c6 c7 c8 c9 c10 c11 c12 c13 c14
    where ts: "ts = [c0, c1, c2, c3, c4, c5, c6, c7, c8, c9, c10, c11, c12, c13, c14]" by blast
  have nd: "\<not> isDigit (CHR ''/'')" by (simp add: isDigit_def)
  from assms show ?thesis unfolding ts canonicalTimestamp_def using nd by auto
qed

lemmas canonical_eval = canonicalTimestamp_def canonicalDate_def validDate_def ts_fields
  digitsVal_def digitVal_def isDigit_def daysIn_def isLeap_def

lemmas instant_eval = timestampInstant_def DateUTC_def daysFromCivil_def nsPerSecond_def
  ts_fields digitsVal_def digitVal_def

section \<open>The key codec\<close>

lemma buildKey_eq:
  "buildKey s service pathName timestamp =
     prefix s @ ''/'' @ service @ ''/'' @ pathName @ ''/'' @ timestamp @ ''.tar.gz''"
  by (simp add: buildKey_def)

lemma Split_key_body:
  assumes "CHR ''/'' \<notin> set service" "CHR ''/'' \<notin> set filename"
  shows "Split (service @ ''/'' @ pathName @ ''/'' @ filename) (CHR ''/'')
           = service # Split pathName (CHR ''/'') @ [filename]"
proof -
  have "Split (service @ CHR ''/'' # (pathName @ CHR ''/'' # filename)) (CHR ''/'')
          = Split service (CHR ''/'') @ Split pathName (CHR ''/'') @ Split filename (CHR ''/'')"
    by (simp only: Split_append)
  with assms show ?thesis by (simp add: Split_no_sep)
qed

text \<open>
  C4. Key round-trip. For every service name without \<open>/\<close>, every path-name (it may contain
  \<open>/\<close>) and every canonical timestamp, decoding the key that \<open>buildKey\<close> encodes yields the
  record with that service, that path-name and the instant the timestamp denotes (and the
  key itself). The names may even be empty.
\<close>

theorem key_roundtrip:
  assumes "CHR ''/'' \<notin> set service" and "canonicalTimestamp timestamp"
  shows "parseKey s (buildKey s service pathName timestamp) =
           Inr (Some \<lparr>Service = service, Path = pathName, Date = timestampInstant timestamp,
                      Key = buildKey s service pathName timestamp, Size = 0, ETag = ''''\<rparr>)"
proof -
  let ?fn = "timestamp @ ''.tar.gz''"
  let ?rel = "service @ ''/'' @ pathName @ ''/'' @ ?fn"
  let ?ps = "Split pathName (CHR ''/'')"
  have key: "buildKey s service pathName timestamp = (prefix s @ ''/'') @ ?rel"
    by (simp add: buildKey_eq)
  have hp: "HasPrefix (buildKey s service pathName timestamp) (prefix s)"
    by (simp add: buildKey_eq HasPrefix_def)
  have rel: "TrimPrefix (buildKey s service pathName timestamp) (prefix s @ ''/'') = ?rel"
    unfolding key by (rule TrimPrefix_append)
  have nofn: "CHR ''/'' \<notin> set ?fn"
    using canonicalTimestamp_no_slash [OF assms(2)] by simp
  have parts: "Split ?rel (CHR ''/'') = service # ?ps @ [?fn]"
    by (rule Split_key_body [OF assms(1) nofn])
  have len: "length timestamp = 15" and sep: "timestamp ! 8 = CHR ''-''"
    using assms(2) by (simp_all add: canonicalTimestamp_def)
  have fst: "index (service # ?ps @ [?fn]) 0 = Inr service"
    by (simp add: index_def)
  have mid: "slice (service # ?ps @ [?fn]) 1 (length (service # ?ps @ [?fn]) - 1) = Inr ?ps"
    by (simp add: slice_def)
  have lst: "index (service # ?ps @ [?fn]) (length (service # ?ps @ [?fn]) - 1) = Inr ?fn"
    by (simp add: index_def nth_append)
  have ge3: "\<not> length (service # ?ps @ [?fn]) < 3"
    using Split_nonempty [of pathName "CHR ''/''"] by (cases ?ps) auto
  have pt: "Parse_timestamp timestamp = Some (timestampInstant timestamp)"
    using Parse_timestamp_canonical [OF len] assms(2) by simp
  show ?thesis
    unfolding parseKey_def Let_def rel parts fst mid lst
    using hp ge3 len sep pt
    by (simp add: HasSuffix_append TrimSuffix_append Join_Split index_def del: Split.simps)
qed

theorem key_roundtrip_witness:
  "CHR ''/'' \<notin> set ''web'' \<and> canonicalTimestamp ''20240229-235959''
   \<and> parseKey \<lparr>bucket = ''b'', prefix = ''backups''\<rparr>
       (buildKey \<lparr>bucket = ''b'', prefix = ''backups''\<rparr> ''web'' ''data/uploads''
          ''20240229-235959'')
     = Inr (Some \<lparr>Service = ''web'', Path = ''data/uploads'', Date = 1709251199000000000,
                  Key = ''backups/web/data/uploads/20240229-235959.tar.gz'', Size = 0,
                  ETag = ''''\<rparr>)"
proof -
  have h1: "CHR ''/'' \<notin> set ''web''" by simp
  have h2: "canonicalTimestamp ''20240229-235959''" by (simp add: canonical_eval)
  have v: "timestampInstant ''20240229-235959'' = 1709251199000000000"
    by (simp add: instant_eval)
  from key_roundtrip [OF h1 h2, of "\<lparr>bucket = ''b'', prefix = ''backups''\<rparr>" "''data/uploads''"]
  show ?thesis using h1 h2 by (simp add: v buildKey_def)
qed

lemma parseKey_parts:
  assumes "parseKey s key = Inr (Some r)"
  shows "\<not> length (Split (TrimPrefix key (prefix s @ ''/'')) (CHR ''/'')) < 3
       \<and> Service r = Split (TrimPrefix key (prefix s @ ''/'')) (CHR ''/'') ! 0
       \<and> HasSuffix (last (Split (TrimPrefix key (prefix s @ ''/'')) (CHR ''/''))) ''.tar.gz''
       \<and> length (TrimSuffix (last (Split (TrimPrefix key (prefix s @ ''/'')) (CHR ''/'')))
                 ''.tar.gz'') = 15
       \<and> Parse_timestamp (TrimSuffix (last (Split (TrimPrefix key (prefix s @ ''/''))
                 (CHR ''/''))) ''.tar.gz'') \<noteq> None"
proof -
  let ?parts = "Split (TrimPrefix key (prefix s @ ''/'')) (CHR ''/'')"
  have l: "?parts ! (length ?parts - 1) = last ?parts"
    by (simp add: last_conv_nth Split_nonempty)
  from assms show ?thesis
    unfolding l [symmetric]
    by (auto simp: parseKey_def Let_def index_def slice_def
        split: if_splits option.splits sum.splits)
qed

text \<open>No index expression of \<open>parseKey\<close> is out of range: it never panics.\<close>

lemma parseKey_no_panic: "parseKey s key \<noteq> Inl e"
  by (auto simp: parseKey_def Let_def index_def slice_def split: option.splits)

lemma parseKey_Some_filename:
  assumes "parseKey s key = Inr (Some r)"
  shows "\<exists>ts. last (Split key (CHR ''/'')) = ts @ ''.tar.gz'' \<and> canonicalTimestamp ts"
proof -
  let ?parts = "Split (TrimPrefix key (prefix s @ ''/'')) (CHR ''/'')"
  let ?fn = "last ?parts"
  let ?ts = "TrimSuffix ?fn ''.tar.gz''"
  from parseKey_parts [OF assms] have suf: "HasSuffix ?fn ''.tar.gz''"
    and len: "length ?ts = 15" and p: "Parse_timestamp ?ts \<noteq> None"
    by blast+
  have "last ?parts = last (Split key (CHR ''/''))"
    using last_Split_TrimPrefix [of key "prefix s" "CHR ''/''"] by simp
  then have e: "last (Split key (CHR ''/'')) = ?ts @ ''.tar.gz''"
    using HasSuffix_decompose [OF suf] by simp
  have "Parse_timestamp ?ts =
          (if canonicalTimestamp ?ts then Some (timestampInstant ?ts) else None)"
    by (rule Parse_timestamp_canonical [OF len])
  with p have "canonicalTimestamp ?ts" by (metis (full_types))
  with e show ?thesis by blast
qed

text \<open>
  C5. Foreign-key rejection. For every key (under the configured prefix or not) whose
  trailing filename, the part after the last \<open>/\<close>, is not a canonical 15-byte timestamp
  followed by \<open>.tar.gz\<close>, \<open>parseKey\<close> returns \<open>nil\<close>: it has no error result, and \<open>Inr\<close> says
  that none of its index expressions has panicked.
\<close>

theorem foreign_key_rejected:
  assumes "\<not> (\<exists>ts. last (Split key (CHR ''/'')) = ts @ ''.tar.gz'' \<and> canonicalTimestamp ts)"
  shows "parseKey s key = Inr None"
proof (cases "parseKey s key")
  case (Inl e)
  with parseKey_no_panic show ?thesis by blast
next
  case (Inr result)
  show ?thesis
  proof (cases result)
    case None
    with Inr show ?thesis by simp
  next
    case (Some r)
    with Inr have "parseKey s key = Inr (Some r)" by simp
    from parseKey_Some_filename [OF this] assms show ?thesis by blast
  qed
qed

theorem foreign_key_rejected_witness:
  "\<not> (\<exists>ts. last (Split ''backups/web/data/web-data-20240229.tar.gz'' (CHR ''/''))
              = ts @ ''.tar.gz'' \<and> canonicalTimestamp ts)
   \<and> HasPrefix ''backups/web/data/web-data-20240229.tar.gz'' ''backups''
   \<and> parseKey \<lparr>bucket = ''b'', prefix = ''backups''\<rparr>
        ''backups/web/data/web-data-20240229.tar.gz'' = Inr None"
proof -
  have l: "last (Split ''backups/web/data/web-data-20240229.tar.gz'' (CHR ''/''))
             = ''web-data-20240229'' @ ''.tar.gz''"
    by simp
  have h: "\<not> (\<exists>ts. last (Split ''backups/web/data/web-data-20240229.tar.gz'' (CHR ''/''))
              = ts @ ''.tar.gz'' \<and> canonicalTimestamp ts)"
  proof
    assume "\<exists>ts. last (Split ''backups/web/data/web-data-20240229.tar.gz'' (CHR ''/''))
              = ts @ ''.tar.gz'' \<and> canonicalTimestamp ts"
    then obtain ts where e: "''web-data-20240229'' @ ''.tar.gz'' = ts @ ''.tar.gz''"
      and c: "canonicalTimestamp ts"
      unfolding l by blast
    from e have "ts = ''web-data-20240229''" by (simp only: append_same_eq)
    with c show False by (simp add: canonicalTimestamp_def)
  qed
  from foreign_key_rejected [OF h, of "\<lparr>bucket = ''b'', prefix = ''backups''\<rparr>"]
  show ?thesis using h by (simp add: HasPrefix_def)
qed

section \<open>The calendar and the cutoff\<close>

lemma int_div_eqI:
  fixes a b k :: int
  assumes "0 < b" and "k * b \<le> a" and "a < k * b + b"
  shows "a div b = k"
proof -
  have "a = b * k + (a - k * b)" by (simp add: mult.commute)
  moreover have "0 \<le> a - k * b" using assms(2) by simp
  moreover have "a - k * b < b" using assms(3) by simp
  ultimately show ?thesis by (rule int_div_pos_eq)
qed

text \<open>
  One step of \<open>civilFromDays\<close>: of at most four parts of length \<open>n\<close> and one day more, the part
  that holds day \<open>x\<close> and the day within it. The last day belongs to the fourth part.
\<close>

lemma fifth_part:
  fixes x n k :: int
  assumes n: "0 < n" and x: "0 \<le> x" "x \<le> 4 * n"
  defines "h \<equiv> x div n"
  defines "c \<equiv> h - h div 4"
  shows "0 \<le> c" "c \<le> 3" "0 \<le> x - n * c" "x - n * c \<le> n"
    and "x - n * c = n \<longrightarrow> c = 3"
proof -
  have h0: "0 \<le> h" using n x(1) by (simp add: h_def pos_imp_zdiv_nonneg_iff)
  have "x div n \<le> (4 * n) div n" using x(2) n by (intro zdiv_mono1) simp_all
  then have h4: "h \<le> 4" using n by (simp add: h_def)
  have dec: "x = n * h + x mod n" by (simp add: h_def)
  have r: "0 \<le> x mod n" "x mod n < n" using n by simp_all
  from h0 h4 have "h = 0 \<or> h = 1 \<or> h = 2 \<or> h = 3 \<or> h = 4" by presburger
  then consider "h \<le> 3" | "h = 4" using h0 by linarith
  then have "0 \<le> c \<and> c \<le> 3 \<and> 0 \<le> x - n * c \<and> x - n * c \<le> n \<and> (x - n * c = n \<longrightarrow> c = 3)"
  proof cases
    case 1
    with h0 have "h div 4 = 0" by simp
    then have c: "c = h" by (simp add: c_def)
    have "x - n * c = x mod n" unfolding c using dec by simp
    with r c h0 1 show ?thesis by simp
  next
    case 2
    then have c: "c = 3" by (simp add: c_def)
    from dec 2 have "x = 4 * n + x mod n" by simp
    with x(2) r have "x = 4 * n" by simp
    with c n show ?thesis by simp
  qed
  then show "0 \<le> c" "c \<le> 3" "0 \<le> x - n * c" "x - n * c \<le> n" "x - n * c = n \<longrightarrow> c = 3"
    by blast+
qed

text \<open>The day number of the civil date of a day is that day.\<close>

lemma daysFromCivil_civilFromDays:
  "(case civilFromDays z of (year, m, d) \<Rightarrow> daysFromCivil year m d) = z"
proof -
  define Z where "Z = z + 719468"
  define era where "era = Z div 146097"
  define doe where "doe = Z - era * 146097"
  define c where "c = doe div 36524 - doe div 36524 div 4"
  define d1 where "d1 = doe - 36524 * c"
  define q where "q = d1 div 1461"
  define d2 where "d2 = d1 - 1461 * q"
  define r where "r = d2 div 365 - d2 div 365 div 4"
  define doy where "doy = d2 - 365 * r"
  define y where "y = 100 * c + 4 * q + r + era * 400"
  define mp where "mp = (5 * doy + 2) div 153"
  define d where "d = doy - (153 * mp + 2) div 5 + 1"
  define m where "m = (if mp < 10 then mp + 3 else mp - 9)"
  have civ: "civilFromDays z = (if m \<le> 2 then y + 1 else y, m, d)"
    unfolding civilFromDays_def Let_def Z_def [symmetric] era_def [symmetric] doe_def [symmetric]
      c_def [symmetric] d1_def [symmetric] q_def [symmetric] d2_def [symmetric]
      r_def [symmetric] doy_def [symmetric] y_def [symmetric] mp_def [symmetric]
      d_def [symmetric] m_def [symmetric]
    by (rule refl)
  have doe_mod: "doe = Z mod 146097" by (simp add: doe_def era_def minus_div_mult_eq_mod)
  have doe: "0 \<le> doe" "doe \<le> 4 * 36524" by (simp_all add: doe_mod) 
  note s1 = fifth_part [OF _ doe, folded c_def, folded d1_def]
  have c: "0 \<le> c" "c \<le> 3" and d1: "0 \<le> d1" "d1 \<le> 36524"
    using s1 by simp_all
  have q0: "0 \<le> q" using d1(1) by (simp add: q_def pos_imp_zdiv_nonneg_iff)
  have "d1 div 1461 \<le> 36524 div 1461" using d1(2) by (intro zdiv_mono1) simp_all
  then have q24: "q \<le> 24" by (simp add: q_def)
  have d2_mod: "d2 = d1 mod 1461" by (simp add: d2_def q_def minus_mult_div_eq_mod)
  have d2: "0 \<le> d2" "d2 \<le> 4 * 365" by (simp_all add: d2_mod)
  note s2 = fifth_part [OF _ d2, folded r_def, folded doy_def]
  have r: "0 \<le> r" "r \<le> 3" and doy: "0 \<le> doy" "doy \<le> 365"
    using s2 by simp_all
  have mp0: "0 \<le> mp" using doy(1) by (simp add: mp_def pos_imp_zdiv_nonneg_iff)
  have "(5 * doy + 2) div 153 \<le> (5 * 365 + 2) div 153" using doy(2) by (intro zdiv_mono1) simp_all
  then have mp11: "mp \<le> 11" by (simp add: mp_def)
  have yy: "(if m \<le> 2 then (if m \<le> 2 then y + 1 else y) - 1 else (if m \<le> 2 then y + 1 else y)) = y"
    by simp
  have mm: "(if m > 2 then m - 3 else m + 9) = mp"
    using mp0 mp11 by (auto simp: m_def)
  define yoe where "yoe = 100 * c + 4 * q + r"
  have yoe: "0 \<le> yoe" "yoe < 400" using c q0 q24 r by (simp_all add: yoe_def)
  have y_yoe: "y = era * 400 + yoe" by (simp add: y_def yoe_def)
  have e: "y div 400 = era" unfolding y_yoe using yoe by (intro int_div_eqI) simp_all
  have ye: "y - era * 400 = yoe" by (simp add: y_yoe)
  have y4: "yoe div 4 = 25 * c + q" unfolding yoe_def using r by (intro int_div_eqI) simp_all
  have y100: "yoe div 100 = c" unfolding yoe_def using q0 q24 r by (intro int_div_eqI) simp_all
  have dd: "(153 * mp + 2) div 5 + d - 1 = doy" by (simp add: d_def)
  have "daysFromCivil (if m \<le> 2 then y + 1 else y) m d
          = era * 146097 + (yoe * 365 + (25 * c + q) - c + doy) - 719468"
    unfolding daysFromCivil_def Let_def yy mm e ye y4 y100 dd by (rule refl)
  also have "\<dots> = era * 146097 + doe - 719468"
    by (simp add: yoe_def doy_def d2_def d1_def)
  also have "\<dots> = z" by (simp add: doe_def Z_def)
  finally show ?thesis by (simp add: civ)
qed

text \<open>
  The 64-bit value of an exact result in range is that result, and it does not change when a
  multiple of \<open>2 ^ 64\<close> is added.
\<close>

lemma int64_id: "- (2 ^ 63) \<le> x \<Longrightarrow> x < 2 ^ 63 \<Longrightarrow> int64 x = x"
  by (simp add: int64_def)

lemma int64_shift: "int64 (x + 2 ^ 64 * n) = int64 x"
proof -
  have "(x + 2 ^ 64 * n + 2 ^ 63) mod 2 ^ 64 = (x + 2 ^ 63 + n * 2 ^ 64) mod 2 ^ 64"
    by (simp add: algebra_simps)
  also have "\<dots> = (x + 2 ^ 63) mod 2 ^ 64" by (rule mod_mult_self1)
  finally show ?thesis by (simp add: int64_def)
qed

lemma int64_ex: "\<exists>n. int64 x = x + 2 ^ 64 * n"
proof -
  have "(x + 2 ^ 63) mod 2 ^ 64 = (x + 2 ^ 63) - 2 ^ 64 * ((x + 2 ^ 63) div 2 ^ 64)"
    by (simp add: minus_mult_div_eq_mod)
  then have "int64 x = x + 2 ^ 64 * (- ((x + 2 ^ 63) div 2 ^ 64))"
    by (simp add: int64_def)
  then show ?thesis ..
qed

lemma daysFromCivil_add_days: "daysFromCivil year m (d + k) = daysFromCivil year m d + k"
  by (simp add: daysFromCivil_def Let_def)

lemma clock_recompose:
  fixes sod :: int
  shows "sod div 3600 * 3600 + sod mod 3600 div 60 * 60 + sod mod 60 = sod"
proof -
  have "sod mod 60 = sod mod 3600 mod 60" by (simp add: mod_mod_cancel)
  then have m: "sod mod 3600 div 60 * 60 + sod mod 60 = sod mod 3600" by simp
  have "sod div 3600 * 3600 + sod mod 3600 div 60 * 60 + sod mod 60
          = sod div 3600 * 3600 + (sod mod 3600 div 60 * 60 + sod mod 60)"
    by (simp only: add.assoc)
  also have "\<dots> = sod div 3600 * 3600 + sod mod 3600" by (simp only: m)
  also have "\<dots> = sod" by simp
  finally show ?thesis .
qed

lemma lookup_FixedZone: "lookup (FixedZone offset) sec = (offset, alpha, omega)"
  by (simp add: FixedZone_def)

lemma time_Date_FixedZone:
  assumes x: "- (2 ^ 62) \<le> x" "x < 2 ^ 62" and off: "\<bar>offset\<bar> < 2 ^ 31"
    and sum: "daysFromCivil year month day * 86400 + hour * 3600 + minute * 60 + sec
                = x + 2 ^ 64 * n"
  shows "time_Date year month day hour minute sec nsec (FixedZone offset)
           = (x - offset) * nsPerSecond + nsec"
proof -
  have unix: "int64 (daysFromCivil year month day * 86400 + hour * 3600 + minute * 60 + sec) = x"
    unfolding sum int64_shift using x by (intro int64_id) simp_all
  have utc: "int64 (x - offset) = x - offset"
    using x off by (intro int64_id) simp_all
  have rng: "\<not> (x - offset < alpha \<or> x - offset \<ge> omega)"
    using x off by (auto simp: alpha_def omega_def)
  have internal: "int64 (x - offset + unixToInternal) = x - offset + unixToInternal"
    using x off by (intro int64_id) (simp_all add: unixToInternal_def)
  show ?thesis
  proof (cases "offset = 0")
    case True
    with internal show ?thesis
      unfolding time_Date_def Let_def unix lookup_FixedZone by simp
  next
    case False
    with internal show ?thesis
      unfolding time_Date_def Let_def unix lookup_FixedZone using rng by (simp add: utc)
  qed
qed

lemma AddDate_days_FixedZone:
  assumes d: "0 \<le> d" "d < 2 ^ 31" and now: "0 \<le> now" "now < 2 ^ 63"
    and off: "\<bar>offset\<bar> < 2 ^ 31"
  shows "AddDate_days (FixedZone offset) now (int64 (- d)) = now - d * 86400 * nsPerSecond"
proof -
  define u where "u = now div nsPerSecond"
  have u0: "0 \<le> u" using now(1) by (simp add: u_def nsPerSecond_def pos_imp_zdiv_nonneg_iff)
  have "now div 1000000000 \<le> (2 ^ 63) div 1000000000"
    using now(2) by (intro zdiv_mono1) simp_all
  then have u1: "u < 10000000000" by (simp add: u_def nsPerSecond_def)
  define wall where "wall = u + offset"
  have wall: "wallSeconds (FixedZone offset) now = wall"
    by (simp add: wallSeconds_def lookup_FixedZone wall_def u_def)
  obtain year month day where civ: "civilFromDays (wall div 86400) = (year, month, day)"
    by (cases "civilFromDays (wall div 86400)")
  from daysFromCivil_civilFromDays [of "wall div 86400"] civ
  have dfc: "daysFromCivil year month day = wall div 86400" by simp
  have neg: "int64 (- d) = - d" using d by (intro int64_id) simp_all
  obtain n where n: "int64 (day + - d) = day + - d + 2 ^ 64 * n" using int64_ex by blast
  define x where "x = wall - d * 86400"
  have x: "- (2 ^ 62) \<le> x" "x < 2 ^ 62" using u0 u1 d off by (simp_all add: x_def wall_def)
  have "day + - d + 2 ^ 64 * n = day + (- d + 2 ^ 64 * n)" by simp
  then have "daysFromCivil year month (int64 (day + - d)) = wall div 86400 - d + 2 ^ 64 * n"
    unfolding n by (simp only: daysFromCivil_add_days dfc)
  note days = this
  define k sod where "k = wall div 86400" and "sod = wall mod 86400"
  have w: "wall = k * 86400 + sod" by (simp add: k_def sod_def)
  have cr: "sod div 3600 * 3600 + sod mod 3600 div 60 * 60 + sod mod 60 = sod"
    by (rule clock_recompose)
  have "daysFromCivil year month (int64 (day + - d)) * 86400
        + sod div 3600 * 3600 + sod mod 3600 div 60 * 60 + sod mod 60
      = (k - d + 2 ^ 64 * n) * 86400
        + (sod div 3600 * 3600 + sod mod 3600 div 60 * 60 + sod mod 60)"
    unfolding days k_def [symmetric] by (simp only: add.assoc)
  also have "\<dots> = (k - d + 2 ^ 64 * n) * 86400 + sod" by (simp only: cr)
  also have "\<dots> = x + 2 ^ 64 * (n * 86400)" by (simp add: x_def w algebra_simps)
  finally have sum: "daysFromCivil year month (int64 (day + - d)) * 86400
        + wall mod 86400 div 3600 * 3600 + wall mod 86400 mod 3600 div 60 * 60
        + wall mod 86400 mod 60 = x + 2 ^ 64 * (n * 86400)"
    by (simp only: sod_def)
  have "AddDate_days (FixedZone offset) now (int64 (- d))
          = time_Date year month (int64 (day + - d)) (wall mod 86400 div 3600)
              (wall mod 86400 mod 3600 div 60) (wall mod 86400 mod 60) (now mod nsPerSecond)
              (FixedZone offset)"
    by (simp add: AddDate_days_def Let_def wall civ neg)
  also have "\<dots> = (x - offset) * nsPerSecond + now mod nsPerSecond"
    by (rule time_Date_FixedZone [OF x off]) (use sum in \<open>simp add: mult.commute\<close>)
  also have "\<dots> = now - d * 86400 * nsPerSecond"
    by (simp add: x_def wall_def u_def algebra_simps)
  finally show ?thesis .
qed

section \<open>Grouping and retention selection\<close>

lemma appendToGroup_keys:
  "map fst (appendToGroup k x gs) = (if k \<in> set (map fst gs) then map fst gs else map fst gs @ [k])"
  by (induction gs) force+

lemma appendToGroup_map_of:
  "map_of (appendToGroup k x gs) =
     (map_of gs)(k \<mapsto> (case map_of gs k of None \<Rightarrow> [x] | Some g \<Rightarrow> g @ [x]))"
  by (induction gs) (auto simp: fun_upd_twist)

lemma groupByKey_snoc:
  "groupByKey f (xs @ [x]) = appendToGroup (f x) x (groupByKey f xs)"
  by (simp add: groupByKey_def)

lemma groupByKey_distinct: "distinct (map fst (groupByKey f xs))"
proof (induction xs rule: rev_induct)
  case Nil
  show ?case by (simp add: groupByKey_def)
next
  case (snoc x xs)
  then show ?case by (simp add: groupByKey_snoc appendToGroup_keys)
qed

lemma groupByKey_map_of:
  "map_of (groupByKey f xs) k =
     (if k \<in> f ` set xs then Some (filter (\<lambda>x. f x = k) xs) else None)"
proof (induction xs rule: rev_induct)
  case Nil
  show ?case by (simp add: groupByKey_def)
next
  case (snoc x xs)
  then show ?case
    by (auto simp: groupByKey_snoc appendToGroup_map_of filter_empty_conv)
       (metis image_eqI)
qed

lemma groupByKey_member:
  assumes "(k, g) \<in> set (groupByKey f xs)"
  shows "g = filter (\<lambda>x. f x = k) xs \<and> k \<in> f ` set xs"
proof -
  from assms have "map_of (groupByKey f xs) k = Some g"
    by (simp add: groupByKey_distinct)
  then show ?thesis by (simp add: groupByKey_map_of split: if_splits)
qed

lemma groupByKey_nonempty:
  assumes "(k, g) \<in> set (groupByKey f xs)"
  shows "g \<noteq> []"
proof -
  from groupByKey_member [OF assms] obtain x where "x \<in> set xs" "f x = k"
    and g: "g = filter (\<lambda>x. f x = k) xs" by auto
  then have "x \<in> set g" by simp
  then show ?thesis by auto
qed

lemma filter_concat_groups:
  assumes "distinct (map fst gs)"
    and "\<And>k g y. (k, g) \<in> set gs \<Longrightarrow> y \<in> set (H g) \<Longrightarrow> keyOf y = k"
  shows "filter (\<lambda>y. keyOf y = k0) (concat (map (\<lambda>(k, g). H g) gs))
           = (case map_of gs k0 of None \<Rightarrow> [] | Some g \<Rightarrow> H g)"
  using assms
proof (induction gs)
  case Nil
  show ?case by simp
next
  case (Cons kg gs)
  obtain k g where kg: "kg = (k, g)" by (cases kg)
  have here: "\<And>y. y \<in> set (H g) \<Longrightarrow> keyOf y = k"
    using Cons.prems(2) [of k g] kg by simp
  have dist: "distinct (map fst gs)" and notin: "k \<notin> fst ` set gs"
    using Cons.prems(1) kg by auto
  have IH: "filter (\<lambda>y. keyOf y = k0) (concat (map (\<lambda>(k, g). H g) gs))
              = (case map_of gs k0 of None \<Rightarrow> [] | Some g \<Rightarrow> H g)"
    by (rule Cons.IH [OF dist]) (use Cons.prems(2) in auto)
  show ?case
  proof (cases "k = k0")
    case True
    have "map_of gs k0 = None"
      using notin True by (simp add: map_of_eq_None_iff)
    moreover have "filter (\<lambda>y. keyOf y = k0) (H g) = H g"
      using here True by (simp add: filter_id_conv)
    ultimately show ?thesis using IH kg True by simp
  next
    case False
    have "filter (\<lambda>y. keyOf y = k0) (H g) = []"
      using here False by (auto simp: filter_empty_conv)
    then show ?thesis using IH kg False by simp
  qed
qed

lemma appendAll_Inr:
  "(\<And>x. x \<in> set xs \<Longrightarrow> f x = Inr (g x)) \<Longrightarrow> appendAll (map f xs) = Inr (concat (map g xs))"
  by (induction xs) auto

lemma set_candidateRecords: "set (candidateRecords K g) \<subseteq> set g"
  by (auto simp: candidateRecords_def dest: in_set_dropD)

lemma set_sortNewestFirst: "set (sortNewestFirst g) = set g"
  by (simp add: sortNewestFirst_def)

lemma deletionRecords_subset: "set (deletionRecords c K g) \<subseteq> set g"
  using set_candidateRecords [of K "sortNewestFirst g"] by (auto simp: deletionRecords_def set_sortNewestFirst)

lemma select_filter_group:
  "mset (filter (\<lambda>b. pathKey b = k) (toDeleteRecords c backups K))
     = mset (deletionRecords c K (filter (\<lambda>b. pathKey b = k) backups))"
proof (cases "backups = []")
  case True
  then show ?thesis
    by (simp add: toDeleteRecords_def deletionRecords_def candidateRecords_def
        sortNewestFirst_def sortOldestFirst_def groupByKey_def)
next
  case False
  let ?c = c
  let ?gs = "groupByKey pathKey backups"
  let ?all = "concat (map (\<lambda>(k, g). deletionRecords ?c K g) ?gs)"
  have sel: "toDeleteRecords c backups K = sortOldestFirst ?all"
    using False by (simp add: toDeleteRecords_def Let_def)
  have keys: "\<And>k g y. (k, g) \<in> set ?gs \<Longrightarrow> y \<in> set (deletionRecords ?c K g) \<Longrightarrow> pathKey y = k"
  proof -
    fix k g y assume m: "(k, g) \<in> set ?gs" and y: "y \<in> set (deletionRecords ?c K g)"
    from y deletionRecords_subset have "y \<in> set g" by blast
    with groupByKey_member [OF m] show "pathKey y = k" by simp
  qed
  have f: "filter (\<lambda>b. pathKey b = k) ?all
             = (case map_of ?gs k of None \<Rightarrow> [] | Some g \<Rightarrow> deletionRecords ?c K g)"
    by (rule filter_concat_groups [OF groupByKey_distinct keys])
  have g: "(case map_of ?gs k of None \<Rightarrow> [] | Some g \<Rightarrow> deletionRecords ?c K g)
             = deletionRecords ?c K (filter (\<lambda>b. pathKey b = k) backups)"
  proof (cases "k \<in> pathKey ` set backups")
    case True
    then show ?thesis by (simp add: groupByKey_map_of)
  next
    case False
    then have "filter (\<lambda>b. pathKey b = k) backups = []"
      by (auto simp: filter_empty_conv)
    with False show ?thesis
      by (simp add: groupByKey_map_of deletionRecords_def candidateRecords_def sortNewestFirst_def)
  qed
  have "mset (filter (\<lambda>b. pathKey b = k) (sortOldestFirst ?all))
          = mset (filter (\<lambda>b. pathKey b = k) ?all)"
    by (simp add: sortOldestFirst_def)
  with sel f g show ?thesis by simp
qed

lemma select_sorted: "sorted (map Date (toDeleteRecords c backups K))"
  by (simp add: toDeleteRecords_def sortOldestFirst_def Let_def)

text \<open>The slice \<open>pathBackups[keepLatest:]\<close> is taken only where it is in range.\<close>

lemma candidates_Inr: "candidates K g = Inr (candidateRecords K g)"
  by (auto simp: candidates_def candidateRecords_def slice_def)

lemma deletionsOfGroup_Inr: "deletionsOfGroup c K g = Inr (deletionRecords c K g)"
  by (simp add: deletionsOfGroup_def deletionRecords_def candidates_Inr)

lemma selectBackupsForDeletion_eq:
  "selectBackupsForDeletion now local backups d K
     = Inr (toDeleteRecords (AddDate_days local now (int64 (- d))) backups K)"
proof (cases "backups = []")
  case True
  then show ?thesis
    by (simp add: selectBackupsForDeletion_def toDeleteRecords_def groupByKey_def
        sortOldestFirst_def)
next
  case False
  let ?c = "AddDate_days local now (int64 (- d))"
  let ?gs = "groupByKey pathKey backups"
  have "appendAll (map (\<lambda>(k, g). deletionsOfGroup ?c K g) ?gs)
          = Inr (concat (map (\<lambda>(k, g). deletionRecords ?c K g) ?gs))"
    by (rule appendAll_Inr) (auto simp: deletionsOfGroup_Inr)
  with False show ?thesis
    by (simp add: selectBackupsForDeletion_def toDeleteRecords_def Let_def)
qed

lemma slash_split_unique:
  assumes "c \<notin> set a" "c \<notin> set a'" "a @ c # b = a' @ c # b'"
  shows "a = a' \<and> b = b'"
  using assms
proof (induction a arbitrary: a')
  case Nil
  then show ?case by (cases a') auto
next
  case (Cons x xs)
  then show ?case by (cases a') auto
qed

lemma pathKey_eq_iff:
  assumes "CHR ''/'' \<notin> set (Service a)" "CHR ''/'' \<notin> set svc"
  shows "pathKey a = svc @ ''/'' @ p \<longleftrightarrow> Service a = svc \<and> Path a = p"
  using slash_split_unique [OF assms, of "Path a" p] by (auto simp: pathKey_def)

lemma sortNewestFirst_descending:
  "sorted_wrt (\<lambda>a b. Date b \<le> Date a) (sortNewestFirst g)"
proof -
  have "sorted (map (\<lambda>b. - Date b) (sortNewestFirst g))"
    unfolding sortNewestFirst_def by (rule sorted_sort_key)
  then show ?thesis by (simp add: sorted_wrt_map)
qed

lemma filter_key_singleton:
  "distinct (map f xs) \<Longrightarrow> k \<in> set xs \<Longrightarrow> filter (\<lambda>x. f k = f x) xs = [k]"
proof (induction xs)
  case Nil
  then show ?case by simp
next
  case (Cons x xs)
  show ?case
  proof (cases "k = x")
    case True
    with Cons.prems have "\<forall>y\<in>set xs. f y \<noteq> f x" by (metis distinct.simps(2) image_eqI list.simps(9) set_map)
    then have "filter (\<lambda>y. f x = f y) xs = []" by (auto simp: filter_empty_conv)
    with True show ?thesis by simp
  next
    case False
    with Cons.prems have k: "k \<in> set xs" and d: "distinct (map f xs)" by auto
    from Cons.prems k have "f k \<noteq> f x" by (metis distinct.simps(2) image_eqI list.simps(9) set_map)
    with Cons.IH [OF d k] show ?thesis by simp
  qed
qed

lemma sortNewestFirst_unique:
  assumes "distinct (map Date g)" and "mset ys = mset g"
    and "sorted_wrt (\<lambda>a b. Date b \<le> Date a) ys"
  shows "sortNewestFirst g = ys"
  unfolding sortNewestFirst_def
proof (rule properties_for_sort_key)
  show "mset ys = mset g" by (rule assms(2))
  show "sorted (map (\<lambda>b. - Date b) ys)"
    using assms(3) by (simp add: sorted_wrt_map)
  fix k assume k: "k \<in> set ys"
  have "mset (map Date ys) = mset (map Date g)" using assms(2) by simp
  then have dy: "distinct (map Date ys)"
    using assms(1) by (metis mset_eq_imp_distinct_iff)
  from k assms(2) have kg: "k \<in> set g" by (metis mset_eq_setD)
  have "filter (\<lambda>x. Date k = Date x) ys = [k]"
    by (rule filter_key_singleton [OF dy k])
  moreover have "filter (\<lambda>x. Date k = Date x) g = [k]"
    by (rule filter_key_singleton [OF assms(1) kg])
  ultimately show "filter (\<lambda>x. - Date k = - Date x) ys = filter (\<lambda>x. - Date k = - Date x) g"
    by simp
qed

lemma take_drop_ordered:
  assumes "sorted_wrt R xs" "r \<in> set (take n xs)" "c \<in> set (drop n xs)"
  shows "R r c"
proof -
  have "sorted_wrt R (take n xs @ drop n xs)" using assms(1) by simp
  then show ?thesis using assms(2,3) unfolding sorted_wrt_append by blast
qed

lemma candidateRecords_drop:
  "0 \<le> K \<Longrightarrow> K < int (length g) \<Longrightarrow> candidateRecords K g = drop (nat K) g"
  by (simp add: candidateRecords_def)


lemma Split_parts_no_sep: "p \<in> set (Split s c) \<Longrightarrow> c \<notin> set p"
proof (induction s arbitrary: p)
  case Nil
  then show ?case by simp
next
  case (Cons x xs)
  obtain w ws where sp: "Split xs c = w # ws"
    using Split_nonempty [of xs c] by (cases "Split xs c") auto
  from Cons sp show ?case by (auto split: if_splits)
qed

lemma parseKey_Service_no_slash:
  assumes "parseKey s key = Inr (Some r)"
  shows "CHR ''/'' \<notin> set (Service r)"
proof -
  let ?parts = "Split (TrimPrefix key (prefix s @ ''/'')) (CHR ''/'')"
  from parseKey_parts [OF assms] have "Service r = ?parts ! 0" and "\<not> length ?parts < 3"
    by blast+
  then have "Service r \<in> set ?parts" by (metis Split_nonempty length_greater_0_conv nth_mem)
  then show ?thesis by (rule Split_parts_no_sep)
qed

lemma List_objects_Service_no_slash:
  "List_objects s objs = Inr backups \<Longrightarrow> \<forall>b\<in>set backups. CHR ''/'' \<notin> set (Service b)"
proof (induction objs arbitrary: backups)
  case Nil
  then show ?case by simp
next
  case (Cons obj objs)
  obtain key objSize etag where obj: "obj = (key, objSize, etag)" by (cases obj)
  from Cons.prems obj Cons.IH show ?case
    by (auto split: sum.splits option.splits) (metis parseKey_Service_no_slash)+
qed

lemma List_objects_no_panic: "List_objects s objs \<noteq> Inl e"
proof (induction objs)
  case Nil
  show ?case by simp
next
  case (Cons obj objs)
  obtain key objSize etag where obj: "obj = (key, objSize, etag)" by (cases obj)
  from Cons obj parseKey_no_panic show ?case
    by (auto split: sum.splits option.splits)
qed

lemma take_drop_distinct_keys:
  assumes "distinct (map f xs)" "r \<in> set (take n xs)" "c \<in> set (drop n xs)"
  shows "f r \<noteq> f c"
proof -
  have "distinct (map f (take n xs) @ map f (drop n xs))"
    using assms(1) by (simp flip: map_append)
  then have "set (map f (take n xs)) \<inter> set (map f (drop n xs)) = {}"
    by (simp only: distinct_append)
  with assms(2,3) show ?thesis by auto
qed

lemma exNow_value: "exNow = 1710504000 * nsPerSecond"
  by code_simp

text \<open>
  C3. For a (service, path) group of N records and \<open>0 \<le> keepLatest < N\<close>. The cutoff is
  \<open>time.Now().AddDate(0, 0, -maxAgeDays)\<close> on the host: the same wall-clock time \<open>maxAgeDays\<close>
  calendar days before \<open>now\<close> in the location of the host. Sorted newest first, the first
  \<open>keepLatest\<close> records of the group are retained and the other \<open>N - keepLatest\<close> are the
  candidates; every retained record is newer than every candidate; the selected records of
  the group are exactly the candidates dated strictly before the cutoff; no retained record
  is selected; and the whole result is sorted oldest first. On a host whose location has one
  offset at all times (UTC for one), for a clock reading between 1970 and 2262 and less than
  \<open>2 ^ 31\<close> days, the cutoff is \<open>now\<close> minus \<open>maxAgeDays\<close> times 24 hours.

  Records come from \<open>List\<close>, whose service names hold no \<open>/\<close> (lemma
  \<open>List_objects_Service_no_slash\<close>), so that the group key \<open>service/path\<close> of the code stands for
  the pair. The dates within the group are distinct, as in a listing, where a group has one
  key for each second: \<open>sort.Slice\<close> is not stable, and with distinct dates every newest-first
  order of the group is the one taken here.
\<close>

theorem retention_selection:
  assumes svc: "\<forall>b\<in>set backups. CHR ''/'' \<notin> set (Service b)"
    and K0: "0 \<le> keepLatest"
    and KN: "keepLatest < int (length (filter (\<lambda>b. Service b = service \<and> Path b = path) backups))"
    and dates: "distinct (map Date (filter (\<lambda>b. Service b = service \<and> Path b = path) backups))"
  shows "(let cutoffDate = AddDate_days local now (int64 (- maxAgeDays));
             selected = toDeleteRecords cutoffDate backups keepLatest;
             pathBackups = filter (\<lambda>b. Service b = service \<and> Path b = path) backups;
             newestFirst = sortNewestFirst pathBackups;
             retained = take (nat keepLatest) newestFirst;
             cands = drop (nat keepLatest) newestFirst
         in selectBackupsForDeletion now local backups maxAgeDays keepLatest = Inr selected
          \<and> (\<forall>ys. mset ys = mset pathBackups \<and> sorted_wrt (\<lambda>a b. Date b \<le> Date a) ys
                 \<longrightarrow> ys = newestFirst)
          \<and> mset retained + mset cands = mset pathBackups
          \<and> length retained = nat keepLatest
          \<and> length cands = length pathBackups - nat keepLatest
          \<and> (\<forall>r\<in>set retained. \<forall>c\<in>set cands. Date c < Date r)
          \<and> mset (filter (\<lambda>b. Service b = service \<and> Path b = path) selected)
              = mset (filter (\<lambda>b. Date b < cutoffDate) cands)
          \<and> set retained \<inter> set selected = {}
          \<and> sorted (map Date selected)
          \<and> (local = FixedZone offset \<and> \<bar>offset\<bar> < 2 ^ 31 \<and> 0 \<le> now \<and> now < 2 ^ 63
               \<and> 0 \<le> maxAgeDays \<and> maxAgeDays < 2 ^ 31
               \<longrightarrow> cutoffDate = now - maxAgeDays * 86400 * nsPerSecond))"
proof -
  let ?P = "\<lambda>b. Service b = service \<and> Path b = path"
  let ?g = "filter ?P backups"
  let ?s = "sortNewestFirst ?g"
  let ?ret = "take (nat keepLatest) ?s"
  let ?cand = "drop (nat keepLatest) ?s"
  let ?c = "AddDate_days local now (int64 (- maxAgeDays))"
  let ?sel = "toDeleteRecords ?c backups keepLatest"
  let ?k = "service @ ''/'' @ path"
  from KN K0 have "?g \<noteq> []" by auto
  then obtain b0 where b0: "b0 \<in> set backups" "Service b0 = service"
    by (auto simp: filter_empty_conv)
  with svc have s0: "CHR ''/'' \<notin> set service" by auto
  have same: "\<And>xs. set xs \<subseteq> set backups \<Longrightarrow> filter (\<lambda>b. pathKey b = ?k) xs = filter ?P xs"
  proof -
    fix xs :: "BackupInfo list" assume "set xs \<subseteq> set backups"
    then have "\<forall>b\<in>set xs. (pathKey b = ?k) = ?P b"
      using svc s0 pathKey_eq_iff by blast
    then show "filter (\<lambda>b. pathKey b = ?k) xs = filter ?P xs"
      by (intro filter_cong refl) blast
  qed
  have lens: "length ?s = length ?g"
    by (simp add: sortNewestFirst_def)
  have ms: "mset ?s = mset ?g" by (simp add: sortNewestFirst_def)
  have "mset (map Date ?s) = mset (map Date ?g)" using ms by simp
  from iffD2 [OF mset_eq_imp_distinct_iff [OF this] dates]
  have dds: "distinct (map Date ?s)" .
  have ds: "distinct ?s" using dds by (simp only: distinct_map)
  have c0: "selectBackupsForDeletion now local backups maxAgeDays keepLatest = Inr ?sel"
    by (rule selectBackupsForDeletion_eq)
  have cu: "\<forall>ys. mset ys = mset ?g \<and> sorted_wrt (\<lambda>a b. Date b \<le> Date a) ys \<longrightarrow> ys = ?s"
  proof (intro allI impI)
    fix ys assume a: "mset ys = mset ?g \<and> sorted_wrt (\<lambda>a b. Date b \<le> Date a) ys"
    from sortNewestFirst_unique [OF dates conjunct1 [OF a] conjunct2 [OF a]]
    show "ys = ?s" by (rule sym)
  qed
  have c1: "mset ?ret + mset ?cand = mset ?g"
  proof -
    have "mset ?ret + mset ?cand = mset ?s"
      by (metis append_take_drop_id mset_append)
    then show ?thesis by (simp add: sortNewestFirst_def)
  qed
  have c2: "length ?ret = nat keepLatest" using KN K0 lens by simp
  have c3: "length ?cand = length ?g - nat keepLatest" using lens by simp
  have c4: "\<forall>r\<in>set ?ret. \<forall>c\<in>set ?cand. Date c < Date r"
  proof (intro ballI)
    fix r c assume r: "r \<in> set ?ret" and c: "c \<in> set ?cand"
    from take_drop_ordered [OF sortNewestFirst_descending r c] have "Date c \<le> Date r" .
    moreover from take_drop_distinct_keys [OF dds r c] have "Date r \<noteq> Date c" .
    ultimately show "Date c < Date r" by simp
  qed
  have selsub: "set ?sel \<subseteq> set backups"
  proof
    fix x assume x: "x \<in> set ?sel"
    then have "x \<in># mset (filter (\<lambda>b. pathKey b = pathKey x) ?sel)" by simp
    then have "x \<in> set (deletionRecords ?c keepLatest (filter (\<lambda>b. pathKey b = pathKey x) backups))"
      unfolding select_filter_group by simp
    with deletionRecords_subset show "x \<in> set backups" by fastforce
  qed
  have c5: "mset (filter ?P ?sel) = mset (filter (\<lambda>b. Date b < ?c) ?cand)"
  proof -
    have "mset (filter ?P ?sel) = mset (filter (\<lambda>b. pathKey b = ?k) ?sel)"
      using same [OF selsub] by simp
    also have "\<dots> = mset (deletionRecords ?c keepLatest (filter (\<lambda>b. pathKey b = ?k) backups))"
      by (rule select_filter_group)
    also have "\<dots> = mset (deletionRecords ?c keepLatest ?g)"
      using same [of backups] by simp
    also have "\<dots> = mset (filter (\<lambda>b. Date b < ?c) ?cand)"
      using candidateRecords_drop [OF K0, of ?s] KN lens by (simp add: deletionRecords_def)
    finally show ?thesis .
  qed
  have c6: "set ?ret \<inter> set ?sel = {}"
  proof (rule ccontr)
    assume "set ?ret \<inter> set ?sel \<noteq> {}"
    then obtain r where r: "r \<in> set ?ret" "r \<in> set ?sel" by blast
    from r(1) have "r \<in> set ?s" by (rule in_set_takeD)
    then have "?P r" by (simp add: sortNewestFirst_def)
    with r(2) have "r \<in># mset (filter ?P ?sel)" by simp
    then have "r \<in> set ?cand" unfolding c5 by simp
    with r(1) set_take_disj_set_drop_if_distinct [OF ds, of "nat keepLatest" "nat keepLatest"]
    show False by auto
  qed
  have c7: "sorted (map Date ?sel)" by (rule select_sorted)
  have c8: "local = FixedZone offset \<and> \<bar>offset\<bar> < 2 ^ 31 \<and> 0 \<le> now \<and> now < 2 ^ 63
               \<and> 0 \<le> maxAgeDays \<and> maxAgeDays < 2 ^ 31
             \<longrightarrow> ?c = now - maxAgeDays * 86400 * nsPerSecond"
  proof (intro impI, elim conjE)
    assume "local = FixedZone offset" "\<bar>offset\<bar> < 2 ^ 31" "0 \<le> now" "now < 2 ^ 63"
      "0 \<le> maxAgeDays" "maxAgeDays < 2 ^ 31"
    from this(1) AddDate_days_FixedZone [OF this(5) this(6) this(3) this(4) this(2)]
    show "?c = now - maxAgeDays * 86400 * nsPerSecond" by (simp only:)
  qed
  show ?thesis unfolding Let_def
    by (rule conjI [OF c0 conjI [OF cu conjI [OF c1 conjI [OF c2 conjI [OF c3 conjI [OF c4
          conjI [OF c5 conjI [OF c6 conjI [OF c7 c8]]]]]]]]])
qed

theorem retention_selection_witness:
  "list_all (\<lambda>b. CHR ''/'' \<notin> set (Service b)) exBackups
   \<and> (0::int) \<le> 1
   \<and> 1 < int (length (filter (\<lambda>b. Service b = ''web'' \<and> Path b = ''data'') exBackups))
   \<and> distinct (map Date (filter (\<lambda>b. Service b = ''web'' \<and> Path b = ''data'') exBackups))
   \<and> selectBackupsForDeletion exNow UTC exBackups 14 1
       = Inr (toDeleteRecords (AddDate_days UTC exNow (int64 (- 14))) exBackups 1)
   \<and> mset (filter (\<lambda>b. Service b = ''web'' \<and> Path b = ''data'')
              (toDeleteRecords (AddDate_days UTC exNow (int64 (- 14))) exBackups 1))
       = mset (filter (\<lambda>b. Date b < AddDate_days UTC exNow (int64 (- 14)))
                 (drop (nat 1) (sortNewestFirst
                    (filter (\<lambda>b. Service b = ''web'' \<and> Path b = ''data'') exBackups))))
   \<and> sorted (map Date (toDeleteRecords (AddDate_days UTC exNow (int64 (- 14))) exBackups 1))
   \<and> AddDate_days UTC exNow (int64 (- 14)) = exNow - 14 * 86400 * nsPerSecond
   \<and> toDeleteRecords (AddDate_days UTC exNow (int64 (- 14))) exBackups 1
       = [exRecord ''web'' ''data'' ''20240220-030000'', exRecord ''web'' ''db'' ''20240220-030500'']"
proof -
  have h1: "\<forall>b\<in>set exBackups. CHR ''/'' \<notin> set (Service b)"
    by (simp add: exBackups_def exRecord_def)
  have h2: "(0::int) \<le> 1" by simp
  have h3: "1 < int (length (filter (\<lambda>b. Service b = ''web'' \<and> Path b = ''data'') exBackups))"
    by (simp add: exBackups_def exRecord_def)
  have h4: "distinct (map Date (filter (\<lambda>b. Service b = ''web'' \<and> Path b = ''data'') exBackups))"
    by code_simp
  have h5: "UTC = FixedZone 0 \<and> \<bar>0::int\<bar> < 2 ^ 31 \<and> 0 \<le> exNow \<and> exNow < 2 ^ 63
              \<and> (0::int) \<le> 14 \<and> (14::int) < 2 ^ 31"
    by (simp add: UTC_def exNow_value nsPerSecond_def)
  note t = retention_selection [OF h1 h2 h3 h4, where local = UTC and now = exNow
      and maxAgeDays = 14 and offset = 0, unfolded Let_def]
  note c0 = t [THEN conjunct1]
  note u = t [THEN conjunct2, THEN conjunct2, THEN conjunct2, THEN conjunct2, THEN conjunct2,
              THEN conjunct2]
  note c5 = u [THEN conjunct1]
  note c7 = u [THEN conjunct2, THEN conjunct2, THEN conjunct1]
  note c8 = u [THEN conjunct2, THEN conjunct2, THEN conjunct2, THEN mp, OF h5]
  have l: "list_all (\<lambda>b. CHR ''/'' \<notin> set (Service b)) exBackups"
    using h1 by (simp add: list_all_iff)
  have w: "exNow - 14 * 86400 * nsPerSecond = 1709294400000000000"
    by (simp add: exNow_value nsPerSecond_def)
  have "toDeleteRecords 1709294400000000000 exBackups 1
       = [exRecord ''web'' ''data'' ''20240220-030000'', exRecord ''web'' ''db'' ''20240220-030500'']"
    by code_simp
  then have v: "toDeleteRecords (AddDate_days UTC exNow (int64 (- 14))) exBackups 1
       = [exRecord ''web'' ''data'' ''20240220-030000'', exRecord ''web'' ''db'' ''20240220-030500'']"
    by (simp only: c8 w)
  show ?thesis
    by (rule conjI [OF l conjI [OF h2 conjI [OF h3 conjI [OF h4 conjI [OF c0 conjI [OF c5
          conjI [OF c7 conjI [OF c8 v]]]]]]]])
qed

text \<open>
  The cutoff where the offset of the host changes in between, and for a number of days that
  does not fit the arithmetic. On the Eastern host \<open>exNow\<close> is 08:00 daylight saving time; 14
  calendar days before, 08:00 standard time is 13:00 UTC, one hour later than 14 times 24
  hours before \<open>exNow\<close>. For \<open>2 ^ 63 - 1\<close> days the day count wraps around and the cutoff is one
  day after \<open>exNow\<close>.
\<close>

lemma AddDate_days_exEastern:
  "AddDate_days exEastern exNow (int64 (- 14)) = timestampInstant ''20240301-130000''"
  by code_simp

lemma AddDate_days_wraps:
  "AddDate_days UTC exNow (int64 (- (2 ^ 63 - 1))) = timestampInstant ''20240316-120000''"
  by code_simp

text \<open>
  C1. A group of one record and \<open>keepLatest = 1\<close>: the group size does not exceed
  \<open>keepLatest\<close>, and the selector still returns the record for deletion, because it is older
  than the cutoff. The test \<open>len(pathBackups) > keepLatest\<close> sends every group that is not
  larger than \<open>keepLatest\<close> to the branch written for \<open>keepLatest = 0\<close>. The host is in UTC.
\<close>

theorem keepLatest_floor_violated:
  "length (filter (\<lambda>b. Service b = ''web'' \<and> Path b = ''data'')
             [exRecord ''web'' ''data'' ''20240220-030000'']) = 1
   \<and> selectBackupsForDeletion exNow UTC [exRecord ''web'' ''data'' ''20240220-030000''] 14 1
       = Inr [exRecord ''web'' ''data'' ''20240220-030000'']"
  by code_simp

text \<open>
  C2. Two records of one group, both older than the cutoff, \<open>keepLatest = 1\<close>: the first run
  selects the older record; on the one record that is left the second run selects again. The
  host is in UTC.
\<close>

theorem retention_not_convergent:
  "selectBackupsForDeletion exNow UTC
      [exRecord ''web'' ''data'' ''20240219-030000'', exRecord ''web'' ''data'' ''20240220-030000''] 14 1
     = Inr [exRecord ''web'' ''data'' ''20240219-030000'']
   \<and> afterDeletion
        [exRecord ''web'' ''data'' ''20240219-030000'', exRecord ''web'' ''data'' ''20240220-030000'']
        [exRecord ''web'' ''data'' ''20240219-030000'']
     = [exRecord ''web'' ''data'' ''20240220-030000'']
   \<and> selectBackupsForDeletion exNow UTC [exRecord ''web'' ''data'' ''20240220-030000''] 14 1
     = Inr [exRecord ''web'' ''data'' ''20240220-030000'']"
  by code_simp

section \<open>Restore selection\<close>

lemma canonicalTimestamp_shape:
  "canonicalTimestamp ts \<Longrightarrow> length ts = 15 \<and> ts ! 8 = CHR ''-''"
  by (simp add: canonicalTimestamp_def)

lemma canonicalDate_length: "canonicalDate ds \<Longrightarrow> length ds = 8"
  by (simp add: canonicalDate_def)

lemma parseDate_cases:
  "parseDate tok =
     (if canonicalTimestamp tok then Inr (timestampInstant tok, True)
      else if canonicalDate tok
        then Inr (DateUTC (tsYear tok) (tsMonth tok) (tsDay tok) 0 0 0 0, False)
      else Inl (InvalidDateFormat tok))"
proof (cases "length tok = 15")
  case True
  then have nd: "\<not> canonicalDate tok" by (auto dest: canonicalDate_length)
  from True show ?thesis
    using nd by (auto simp: parseDate_def Parse_timestamp_canonical dest: canonicalTimestamp_shape)
next
  case False
  then have nt: "\<not> canonicalTimestamp tok" by (auto dest: canonicalTimestamp_shape)
  show ?thesis
  proof (cases "length tok = 8")
    case True
    with False nt show ?thesis by (simp add: parseDate_def Parse_date_canonical)
  next
    case False
    then have "\<not> canonicalDate tok" by (auto dest: canonicalDate_length)
    with False nt \<open>length tok \<noteq> 15\<close> show ?thesis by (simp add: parseDate_def)
  qed
qed

lemma sortNewestFirst_nonempty: "g \<noteq> [] \<Longrightarrow> sortNewestFirst g \<noteq> []"
  by (metis length_0_conv length_sort sortNewestFirst_def)

lemma sortNewestFirst_head:
  assumes "g \<noteq> []"
  shows "sortNewestFirst g ! 0 \<in> set g \<and> (\<forall>b\<in>set g. Date b \<le> Date (sortNewestFirst g ! 0))"
proof -
  from sortNewestFirst_nonempty [OF assms]
  obtain x xs where s: "sortNewestFirst g = x # xs" by (cases "sortNewestFirst g") auto
  have "sorted_wrt (\<lambda>a b. Date b \<le> Date a) (x # xs)"
    using sortNewestFirst_descending [of g] s by simp
  then have "\<forall>b\<in>set (x # xs). Date b \<le> Date x" by auto
  moreover have "set (x # xs) = set g" using set_sortNewestFirst [of g] s by simp
  ultimately show ?thesis using s by auto
qed

text \<open>A group is never empty, so \<open>pathBackups[0]\<close> is in range.\<close>

lemma chosenOfGroup_Inr: "g \<noteq> [] \<Longrightarrow> chosenOfGroup opts g = Inr (chosenRecords opts g)"
  using sortNewestFirst_nonempty [of g]
  by (simp add: chosenOfGroup_def chosenRecords_def index_def Let_def)

lemma selectBackups_eq: "selectBackups backups opts = Inr (selectedRecords backups opts)"
proof (cases "dateFilter backups opts = []")
  case True
  then show ?thesis by (simp add: selectBackups_def selectedRecords_def groupByKey_def)
next
  case False
  let ?gs = "groupByKey Path (dateFilter backups opts)"
  have "\<And>x. x \<in> set ?gs \<Longrightarrow>
          (\<lambda>(path, pathBackups). chosenOfGroup opts pathBackups) x
            = Inr ((\<lambda>(path, pathBackups). chosenRecords opts pathBackups) x)"
  proof -
    fix x assume x: "x \<in> set ?gs"
    obtain k g where kg: "x = (k, g)" by (cases x)
    with x groupByKey_nonempty have "g \<noteq> []" by fastforce
    with kg show "(\<lambda>(path, pathBackups). chosenOfGroup opts pathBackups) x
            = Inr ((\<lambda>(path, pathBackups). chosenRecords opts pathBackups) x)"
      by (simp add: chosenOfGroup_Inr)
  qed
  from appendAll_Inr [of ?gs, OF this] False show ?thesis
    by (simp add: selectBackups_def selectedRecords_def Let_def)
qed

lemma chosenRecords_subset: "g \<noteq> [] \<Longrightarrow> set (chosenRecords opts g) \<subseteq> set g"
  using sortNewestFirst_head [of g] by (auto simp: chosenRecords_def set_sortNewestFirst)

lemma chosenRecords_nonempty: "g \<noteq> [] \<Longrightarrow> chosenRecords opts g \<noteq> []"
  using sortNewestFirst_nonempty [of g] by (simp add: chosenRecords_def)

lemma selectedRecords_path:
  "filter (\<lambda>b. Path b = p) (selectedRecords backups opts) =
     (if p \<in> Path ` set (dateFilter backups opts)
      then chosenRecords opts (filter (\<lambda>b. Path b = p) (dateFilter backups opts)) else [])"
proof -
  let ?gs = "groupByKey Path (dateFilter backups opts)"
  have keys: "\<And>k g y. (k, g) \<in> set ?gs \<Longrightarrow> y \<in> set (chosenRecords opts g) \<Longrightarrow> Path y = k"
  proof -
    fix k g y assume m: "(k, g) \<in> set ?gs" and y: "y \<in> set (chosenRecords opts g)"
    from chosenRecords_subset [OF groupByKey_nonempty [OF m]] y have "y \<in> set g" by blast
    with groupByKey_member [OF m] show "Path y = k" by simp
  qed
  have "filter (\<lambda>b. Path b = p) (concat (map (\<lambda>(k, g). chosenRecords opts g) ?gs))
          = (case map_of ?gs p of None \<Rightarrow> [] | Some g \<Rightarrow> chosenRecords opts g)"
    by (rule filter_concat_groups [OF groupByKey_distinct keys])
  then show ?thesis by (simp add: selectedRecords_def groupByKey_map_of)
qed

lemma selectedRecords_nonempty:
  assumes "dateFilter backups opts \<noteq> []"
  shows "selectedRecords backups opts \<noteq> []"
proof -
  from assms obtain b where b: "b \<in> set (dateFilter backups opts)"
    by (cases "dateFilter backups opts") auto
  let ?g = "filter (\<lambda>x. Path x = Path b) (dateFilter backups opts)"
  from b have "?g \<noteq> []" by (auto simp: filter_empty_conv)
  then have "chosenRecords opts ?g \<noteq> []" by (rule chosenRecords_nonempty)
  moreover have "filter (\<lambda>x. Path x = Path b) (selectedRecords backups opts)
                   = chosenRecords opts ?g"
    using b by (simp add: selectedRecords_path)
  ultimately show ?thesis by auto
qed

text \<open>Values of the example records.\<close>

lemma ex_instants:
  "timestampInstant ''20240305-030000'' = 1709607600000000000"
  "timestampInstant ''20240220-030500'' = 1708398300000000000"
  "timestampInstant ''20240220-030000'' = 1708398000000000000"
  "timestampInstant ''20240310-030000'' = 1710039600000000000"
  by (simp_all add: instant_eval)

lemma ex_format_dates:
  "Format_date 1709607600000000000 = ''20240305''"
  "Format_date 1708398300000000000 = ''20240220''"
  "Format_date 1708398000000000000 = ''20240220''"
  "Format_date 1710039600000000000 = ''20240310''"
  "Format_date 1709596800000000000 = ''20240305''"
  by code_simp+

lemma parseDate_ex: "parseDate ''20240305'' = Inr (1709596800000000000, False)"
  by code_simp

lemma dateFilter_ex:
  "dateFilter exBackups (exOptions\<lparr>Latest := True, Date_opt := ''20240305''\<rparr>)
     = [exRecord ''web'' ''data'' ''20240305-030000'']"
  by (simp add: dateFilter_def exBackups_def exRecord_def parseDate_ex ex_instants
      ex_format_dates)

text \<open>
  C7, as the code has it. With the \<open>latest\<close> option or with no date filter, the selection is
  made without a panic and holds for every path exactly one record if some record of that
  path passes the date filter, the most recent of those that pass, and none otherwise. With
  no date filter every record passes, so that every path with a record gets exactly one, its
  most recent.
\<close>

theorem latest_selection:
  assumes "Latest opts \<or> Date_opt opts = []"
  shows "\<exists>selected. selectBackups backups opts = Inr selected
       \<and> (let eligible = dateFilter backups opts;
              chosen = filter (\<lambda>b. Path b = p) selected
          in (Date_opt opts = [] \<longrightarrow> eligible = backups)
           \<and> (if \<exists>b\<in>set eligible. Path b = p
              then \<exists>r. chosen = [r] \<and> r \<in> set eligible \<and> Path r = p
                       \<and> (\<forall>b\<in>set eligible. Path b = p \<longrightarrow> Date b \<le> Date r)
              else chosen = []))"
proof -
  let ?e = "dateFilter backups opts"
  let ?g = "filter (\<lambda>b. Path b = p) ?e"
  let ?sel = "selectedRecords backups opts"
  have a: "Date_opt opts = [] \<longrightarrow> ?e = backups" by (simp add: dateFilter_def)
  have body: "if \<exists>b\<in>set ?e. Path b = p
              then \<exists>r. filter (\<lambda>b. Path b = p) ?sel = [r] \<and> r \<in> set ?e \<and> Path r = p
                       \<and> (\<forall>b\<in>set ?e. Path b = p \<longrightarrow> Date b \<le> Date r)
              else filter (\<lambda>b. Path b = p) ?sel = []"
  proof (cases "\<exists>b\<in>set ?e. Path b = p")
    case True
    then have ne: "?g \<noteq> []" by (auto simp: filter_empty_conv)
    from True have "p \<in> Path ` set ?e" by auto
    then have ch: "filter (\<lambda>b. Path b = p) ?sel = [sortNewestFirst ?g ! 0]"
      using assms by (simp add: selectedRecords_path chosenRecords_def)
    from sortNewestFirst_head [OF ne]
    have "sortNewestFirst ?g ! 0 \<in> set ?e \<and> Path (sortNewestFirst ?g ! 0) = p
          \<and> (\<forall>b\<in>set ?e. Path b = p \<longrightarrow> Date b \<le> Date (sortNewestFirst ?g ! 0))"
      by auto
    with ch True show ?thesis by auto
  next
    case False
    then have "p \<notin> Path ` set ?e" by auto
    then have "filter (\<lambda>b. Path b = p) ?sel = []"
      by (simp add: selectedRecords_path)
    with False show ?thesis by auto
  qed
  from a body have "selectBackups backups opts = Inr ?sel
       \<and> (let eligible = dateFilter backups opts;
              chosen = filter (\<lambda>b. Path b = p) ?sel
          in (Date_opt opts = [] \<longrightarrow> eligible = backups)
           \<and> (if \<exists>b\<in>set eligible. Path b = p
              then \<exists>r. chosen = [r] \<and> r \<in> set eligible \<and> Path r = p
                       \<and> (\<forall>b\<in>set eligible. Path b = p \<longrightarrow> Date b \<le> Date r)
              else chosen = []))"
    unfolding Let_def by (simp add: selectBackups_eq)
  then show ?thesis by blast
qed

theorem latest_selection_witness:
  "(Latest (exOptions\<lparr>Latest := True, Date_opt := ''20240305''\<rparr>)
      \<or> Date_opt (exOptions\<lparr>Latest := True, Date_opt := ''20240305''\<rparr>) = [])
   \<and> selectBackups exBackups (exOptions\<lparr>Latest := True, Date_opt := ''20240305''\<rparr>)
       = Inr (selectedRecords exBackups (exOptions\<lparr>Latest := True, Date_opt := ''20240305''\<rparr>))
   \<and> filter (\<lambda>b. Path b = ''data'')
        (selectedRecords exBackups (exOptions\<lparr>Latest := True, Date_opt := ''20240305''\<rparr>))
       = [exRecord ''web'' ''data'' ''20240305-030000'']
   \<and> filter (\<lambda>b. Path b = ''db'')
        (selectedRecords exBackups (exOptions\<lparr>Latest := True, Date_opt := ''20240305''\<rparr>))
       = []"
proof -
  let ?o = "exOptions\<lparr>Latest := True, Date_opt := ''20240305''\<rparr>"
  have h: "Latest ?o \<or> Date_opt ?o = []"
    by simp
  note f = dateFilter_ex
  have e: "selectBackups exBackups ?o = Inr (selectedRecords exBackups ?o)"
    by (rule selectBackups_eq)
  have a: "filter (\<lambda>b. Path b = ''data'') (selectedRecords exBackups ?o)
             = [exRecord ''web'' ''data'' ''20240305-030000'']"
    using latest_selection [OF h, of exBackups "''data''"]
    by (auto simp: Let_def f e exRecord_def)
  have b: "filter (\<lambda>b. Path b = ''db'') (selectedRecords exBackups ?o) = []"
    using latest_selection [OF h, of exBackups "''db''"]
    by (auto simp: Let_def f e exRecord_def)
  show ?thesis
    by (rule conjI [OF h conjI [OF e conjI [OF a b]]])
qed

text \<open>
  C7 as stated fails when \<open>latest\<close> comes with a date filter: of the two paths with records,
  \<open>db\<close> gets no record, and \<open>data\<close> gets the record of the day asked for, which is not its
  most recent one.
\<close>

theorem latest_with_date_filter_counterexample:
  "Latest (exOptions\<lparr>Latest := True, Date_opt := ''20240305''\<rparr>)
   \<and> selectBackups exBackups (exOptions\<lparr>Latest := True, Date_opt := ''20240305''\<rparr>)
       = Inr [exRecord ''web'' ''data'' ''20240305-030000'']
   \<and> exRecord ''web'' ''db'' ''20240220-030500'' \<in> set exBackups
   \<and> exRecord ''web'' ''data'' ''20240310-030000'' \<in> set exBackups
   \<and> Date (exRecord ''web'' ''data'' ''20240305-030000'')
       < Date (exRecord ''web'' ''data'' ''20240310-030000'')"
proof -
  let ?o = "exOptions\<lparr>Latest := True, Date_opt := ''20240305''\<rparr>"
  have s: "selectBackups exBackups ?o = Inr [exRecord ''web'' ''data'' ''20240305-030000'']"
    by (simp add: selectBackups_def dateFilter_ex groupByKey_def chosenOfGroup_def
        sortNewestFirst_def index_def)
  have m: "exRecord ''web'' ''db'' ''20240220-030500'' \<in> set exBackups"
    "exRecord ''web'' ''data'' ''20240310-030000'' \<in> set exBackups"
    by (simp_all add: exBackups_def)
  have d: "Date (exRecord ''web'' ''data'' ''20240305-030000'')
       < Date (exRecord ''web'' ''data'' ''20240310-030000'')"
    by (simp add: exRecord_def ex_instants)
  show ?thesis using s m d by simp
qed

text \<open>
  C6, as the code has it. For a token that is neither a calendar date of eight bytes nor a
  canonical timestamp of fifteen, \<open>parseDate\<close> returns an error, and \<open>selectBackups\<close> does not
  pass it on: it drops the date filter, so that no record is excluded; with \<open>latest\<close> the
  selection is the one made without a token, and when records exist \<open>RestoreService\<close> goes
  on to restore a non-empty selection.
\<close>

theorem invalid_token_ignored:
  assumes "\<not> canonicalDate tok" and "\<not> canonicalTimestamp tok"
  shows "parseDate tok = Inl (InvalidDateFormat tok)
       \<and> dateFilter backups (opts\<lparr>Date_opt := tok\<rparr>) = backups
       \<and> (Latest opts \<longrightarrow>
            selectBackups backups (opts\<lparr>Date_opt := tok\<rparr>)
              = selectBackups backups (opts\<lparr>Date_opt := []\<rparr>))
       \<and> (backups \<noteq> [] \<longrightarrow>
            (\<exists>selected. selected \<noteq> []
               \<and> RestoreService_selection True backups (opts\<lparr>Date_opt := tok\<rparr>) = Inr selected))"
proof -
  have p: "parseDate tok = Inl (InvalidDateFormat tok)"
    using assms by (simp add: parseDate_cases)
  have f: "dateFilter backups (opts\<lparr>Date_opt := tok\<rparr>) = backups"
    using p by (simp add: dateFilter_def)
  have f0: "dateFilter backups (opts\<lparr>Date_opt := []\<rparr>) = backups"
    by (simp add: dateFilter_def)
  have l: "Latest opts \<longrightarrow>
            selectBackups backups (opts\<lparr>Date_opt := tok\<rparr>)
              = selectBackups backups (opts\<lparr>Date_opt := []\<rparr>)"
    by (simp add: selectBackups_eq selectedRecords_def f f0 chosenRecords_def)
  have r: "backups \<noteq> [] \<longrightarrow>
            (\<exists>selected. selected \<noteq> []
               \<and> RestoreService_selection True backups (opts\<lparr>Date_opt := tok\<rparr>) = Inr selected)"
  proof
    assume ne: "backups \<noteq> []"
    then have "selectedRecords backups (opts\<lparr>Date_opt := tok\<rparr>) \<noteq> []"
      using selectedRecords_nonempty [of backups "opts\<lparr>Date_opt := tok\<rparr>"] f by simp
    with ne show "\<exists>selected. selected \<noteq> []
               \<and> RestoreService_selection True backups (opts\<lparr>Date_opt := tok\<rparr>) = Inr selected"
      by (simp add: RestoreService_selection_def selectBackups_eq)
  qed
  from p f l r show ?thesis by blast
qed

theorem invalid_token_ignored_witness:
  "\<not> canonicalDate ''yesterday'' \<and> \<not> canonicalTimestamp ''yesterday''
   \<and> parseDate ''yesterday'' = Inl (InvalidDateFormat ''yesterday'')
   \<and> dateFilter exBackups (exOptions\<lparr>Date_opt := ''yesterday''\<rparr>) = exBackups"
proof -
  have h1: "\<not> canonicalDate ''yesterday''" by (simp add: canonicalDate_def)
  have h2: "\<not> canonicalTimestamp ''yesterday''" by (simp add: canonicalTimestamp_def)
  note t = invalid_token_ignored [OF h1 h2, of exBackups exOptions]
  show ?thesis
    by (rule conjI [OF h1 conjI [OF h2 conjI [OF t [THEN conjunct1]
          t [THEN conjunct2, THEN conjunct1]]]])
qed

text \<open>
  C6 as stated fails: the token \<open>yesterday\<close> has neither form, and the run goes on to restore
  records (all four, three of them for one path) instead of reporting an error.
\<close>

theorem invalid_token_counterexample:
  "\<not> canonicalDate ''yesterday'' \<and> \<not> canonicalTimestamp ''yesterday''
   \<and> RestoreService_selection True exBackups (exOptions\<lparr>Date_opt := ''yesterday''\<rparr>)
       = Inr [exRecord ''web'' ''data'' ''20240310-030000'',
              exRecord ''web'' ''data'' ''20240305-030000'',
              exRecord ''web'' ''data'' ''20240220-030000'',
              exRecord ''web'' ''db'' ''20240220-030500'']"
  by code_simp

section \<open>The include filter\<close>

lemma FromSlash_unix: "FromSlash p = p"
  by (simp add: FromSlash_def Separator_def map_idI)

lemma includeLoop_iff:
  "includeLoop R fs \<longleftrightarrow> (\<exists>F\<in>set fs. HasPrefix R F \<or> HasPrefix F R)"
  by (induction fs) (auto simp: FromSlash_unix Let_def)

lemma Rel_ex:
  "Rel ''/data'' ''/data/uploads/x.png'' = Inr ''uploads/x.png''"
  "Rel ''/data'' ''/data/other/y.png'' = Inr ''other/y.png''"
  "Rel ''/data'' ''/data'' = Inr ''.''"
  by code_simp+

text \<open>
  C8. Include-filter rule. For an entry whose path relative to the root is \<open>R\<close>,
  \<open>shouldInclude\<close> holds if and only if \<open>R\<close> is \<open>.\<close> or some include term is a prefix of \<open>R\<close>
  or has \<open>R\<close> as a prefix (prefixes of byte strings); this holds for the empty list of terms
  too. For the root \<open>/data\<close> and the term \<open>uploads\<close>, \<open>/data/uploads/x.png\<close> is included,
  \<open>/data/other/y.png\<close> is not, and the root is.
\<close>

theorem include_filter_rule:
  "(Rel basePath path = Inr R \<longrightarrow>
      (shouldInclude path basePath includeFolders
         \<longleftrightarrow> (R = ''.'' \<or> (\<exists>F\<in>set includeFolders. HasPrefix R F \<or> HasPrefix F R))))
   \<and> shouldInclude ''/data/uploads/x.png'' ''/data'' [''uploads'']
   \<and> \<not> shouldInclude ''/data/other/y.png'' ''/data'' [''uploads'']
   \<and> shouldInclude ''/data'' ''/data'' [''uploads'']"
proof -
  have g: "Rel basePath path = Inr R \<longrightarrow>
      (shouldInclude path basePath includeFolders
         \<longleftrightarrow> (R = ''.'' \<or> (\<exists>F\<in>set includeFolders. HasPrefix R F \<or> HasPrefix F R)))"
    by (simp add: shouldInclude_def includeLoop_iff)
  have e1: "shouldInclude ''/data/uploads/x.png'' ''/data'' [''uploads'']"
    by (simp add: shouldInclude_def Rel_ex FromSlash_unix HasPrefix_def)
  have e2: "\<not> shouldInclude ''/data/other/y.png'' ''/data'' [''uploads'']"
    by (simp add: shouldInclude_def Rel_ex FromSlash_unix HasPrefix_def)
  have e3: "shouldInclude ''/data'' ''/data'' [''uploads'']"
    by (simp add: shouldInclude_def Rel_ex)
  from g e1 e2 e3 show ?thesis by blast
qed

theorem include_filter_rule_witness:
  "Rel ''/data'' ''/data/uploads/x.png'' = Inr ''uploads/x.png''
   \<and> shouldInclude ''/data/uploads/x.png'' ''/data'' [''themes'', ''uploads'']
   \<and> Rel ''/data'' ''/data/other/y.png'' = Inr ''other/y.png''
   \<and> shouldInclude ''/data/other/y.png'' ''/data'' [''themes'', ''uploads''] = False"
proof -
  note r1 = Rel_ex(1)
  note r2 = Rel_ex(2)
  note t1 = include_filter_rule [of "''/data''" "''/data/uploads/x.png''" "''uploads/x.png''"
              "[''themes'', ''uploads'']", THEN conjunct1, rule_format, OF r1]
  note t2 = include_filter_rule [of "''/data''" "''/data/other/y.png''" "''other/y.png''"
              "[''themes'', ''uploads'']", THEN conjunct1, rule_format, OF r2]
  have a: "shouldInclude ''/data/uploads/x.png'' ''/data'' [''themes'', ''uploads'']"
    unfolding t1 by (simp add: HasPrefix_def)
  have b: "shouldInclude ''/data/other/y.png'' ''/data'' [''themes'', ''uploads''] = False"
    unfolding t2 by (simp add: HasPrefix_def)
  show ?thesis by (rule conjI [OF r1 conjI [OF a conjI [OF r2 b]]])
qed

section \<open>Backing up one path\<close>

lemma buildKey_suffix: "HasSuffix (buildKey s service pathName timestamp) ''.tar.gz''"
proof -
  have "buildKey s service pathName timestamp
          = (prefix s @ ''/'' @ service @ ''/'' @ pathName @ ''/'' @ timestamp) @ ''.tar.gz''"
    by (simp add: buildKey_eq)
  then show ?thesis by (simp only: HasSuffix_append)
qed

lemma Upload_ops:
  "list_all (\<lambda>op. HasSuffix (opKey op) ''.tar.gz'') (snd (Upload s now put head service pathName))"
  by (simp add: Upload_def Let_def buildKey_suffix split: option.splits)

lemma finishUpload_ops: "snd (finishUpload result up sent) = sent @ snd up"
  by (simp add: finishUpload_def split: sum.splits error.splits)

lemma backupPath_ops:
  "list_all (\<lambda>op. HasSuffix (opKey op) ''.tar.gz'')
     (snd (backupPath cfg s env now serviceName pathName pathLocation includeFolders))"
  by (simp add: backupPath_def Let_def finishUpload_ops Upload_ops split: option.splits)

lemma backupPath_progress_ops:
  "list_all (\<lambda>op. HasSuffix (opKey op) ''.tar.gz'')
     (snd (backupPath_progress cfg s env now serviceName pathName pathLocation includeFolders))"
  by (simp add: backupPath_progress_def Let_def finishUpload_ops Upload_ops
      split: option.splits sum.splits error.splits)

lemma last_Split_is_suffix: "\<exists>pre. s = pre @ last (Split s c)"
proof (induction s)
  case Nil
  show ?case by simp
next
  case (Cons x xs)
  then obtain pre where pre: "xs = pre @ last (Split xs c)" by blast
  obtain w ws where sp: "Split xs c = w # ws"
    using Split_nonempty [of xs c] by (cases "Split xs c") auto
  show ?case
  proof (cases "x = c")
    case True
    then have "last (Split (x # xs) c) = last (Split xs c)" by (simp add: Split_nonempty)
    with pre have "x # xs = (x # pre) @ last (Split (x # xs) c)" by simp
    then show ?thesis by blast
  next
    case False
    show ?thesis
    proof (cases ws)
      case Nil
      from Join_Split [of xs c] sp Nil have "w = xs" by simp
      with sp False Nil have "last (Split (x # xs) c) = x # xs" by simp
      then have "x # xs = [] @ last (Split (x # xs) c)" by simp
      then show ?thesis by blast
    next
      case (Cons y ys)
      with sp False have "last (Split (x # xs) c) = last (Split xs c)" by simp
      with pre have "x # xs = (x # pre) @ last (Split (x # xs) c)" by simp
      then show ?thesis by blast
    qed
  qed
qed

lemma parseKey_suffix:
  assumes "parseKey s key = Inr (Some r)"
  shows "HasSuffix key ''.tar.gz''"
proof -
  from parseKey_Some_filename [OF assms] obtain ts
    where l: "last (Split key (CHR ''/'')) = ts @ ''.tar.gz''" by blast
  from last_Split_is_suffix [of key "CHR ''/''"] obtain pre
    where "key = pre @ last (Split key (CHR ''/''))" by blast
  with l have "key = (pre @ ts) @ ''.tar.gz''" by simp
  then show ?thesis by (metis HasSuffix_append)
qed

text \<open>
  C9. Minimum-size rejection. When the archive file is smaller than the configured minimum
  size, \<open>backupPath\<close> (in both versions) returns a result that carries an error and no
  record, and it sends no request to the store; when the archive was created, the error is
  the one about the minimum size. The result is a value of the item, returned to the loop
  over the paths. (A file size is not negative, so the minimum is positive here.)
\<close>

theorem minimum_size_rejection:
  assumes "statArchive env (Compression cfg) = Some archiveSize"
    and "0 \<le> archiveSize" and "archiveSize < MinSize cfg"
  shows "Error (fst (backupPath cfg s env now serviceName pathName pathLocation includeFolders)) \<noteq> None
       \<and> BackupInfo_res (fst (backupPath cfg s env now serviceName pathName pathLocation includeFolders)) = None
       \<and> snd (backupPath cfg s env now serviceName pathName pathLocation includeFolders) = []
       \<and> Error (fst (backupPath_progress cfg s env now serviceName pathName pathLocation includeFolders)) \<noteq> None
       \<and> BackupInfo_res (fst (backupPath_progress cfg s env now serviceName pathName pathLocation includeFolders)) = None
       \<and> snd (backupPath_progress cfg s env now serviceName pathName pathLocation includeFolders) = []
       \<and> (statSource env \<and> mkdirTemp env \<and> createTemp env
            \<and> createArchive env (Compression cfg) (PreserveACLs cfg) \<longrightarrow>
          Error (fst (backupPath cfg s env now serviceName pathName pathLocation includeFolders))
            = Some (BelowMinimumSize archiveSize (MinSize cfg))
          \<and> Error (fst (backupPath_progress cfg s env now serviceName pathName pathLocation includeFolders))
            = Some (BelowMinimumSize archiveSize (MinSize cfg)))"
proof -
  from assms have pos: "MinSize cfg > 0" by simp
  show ?thesis
    using assms pos by (simp add: backupPath_def backupPath_progress_def Let_def)
qed

theorem minimum_size_rejection_witness:
  "statArchive exEnv (Compression exConfig) = Some 512
   \<and> (0::int) \<le> 512 \<and> 512 < MinSize exConfig
   \<and> Error (fst (backupPath exConfig exClient exEnv exNow ''web'' ''data'' ''/var/www'' []))
       = Some (BelowMinimumSize 512 1024)
   \<and> snd (backupPath exConfig exClient exEnv exNow ''web'' ''data'' ''/var/www'' []) = []
   \<and> snd (backupPath_progress exConfig exClient exEnv exNow ''web'' ''data'' ''/var/www'' []) = []"
proof -
  have h1: "statArchive exEnv (Compression exConfig) = Some 512" by (simp add: exEnv_def)
  have h2: "(0::int) \<le> 512" by simp
  have h3: "512 < MinSize exConfig" by (simp add: exConfig_def)
  note t = minimum_size_rejection [OF h1 h2 h3, of exClient exNow "''web''" "''data''" "''/var/www''" "[]"]
  have ok: "statSource exEnv \<and> mkdirTemp exEnv \<and> createTemp exEnv
            \<and> createArchive exEnv (Compression exConfig) (PreserveACLs exConfig)"
    by (simp add: exEnv_def)
  have e: "Error (fst (backupPath exConfig exClient exEnv exNow ''web'' ''data'' ''/var/www'' []))
       = Some (BelowMinimumSize 512 1024)"
    using t ok by (simp add: exConfig_def)
  note n1 = t [THEN conjunct2, THEN conjunct2, THEN conjunct1]
  note n2 = t [THEN conjunct2, THEN conjunct2, THEN conjunct2, THEN conjunct2, THEN conjunct2,
               THEN conjunct1]
  show ?thesis
    by (rule conjI [OF h1 conjI [OF h2 conjI [OF h3 conjI [OF e conjI [OF n1 n2]]]]])
qed

text \<open>
  C10. The suffix does not depend on the compression setting. A key built by \<open>buildKey\<close>
  ends with \<open>.tar.gz\<close>; whatever the configuration says about compression, every request
  that \<open>backupPath\<close> (in both versions) sends to the store has such a key; and \<open>parseKey\<close>
  decodes only keys that end with \<open>.tar.gz\<close>.
\<close>

theorem archive_suffix_fixed:
  "HasSuffix (buildKey s service pathName timestamp) ''.tar.gz''
   \<and> list_all (\<lambda>op. HasSuffix (opKey op) ''.tar.gz'')
        (snd (backupPath (cfg\<lparr>Compression := compression\<rparr>) s env now service pathName
                pathLocation includeFolders))
   \<and> list_all (\<lambda>op. HasSuffix (opKey op) ''.tar.gz'')
        (snd (backupPath_progress (cfg\<lparr>Compression := compression\<rparr>) s env now service pathName
                pathLocation includeFolders))
   \<and> (parseKey s key = Inr (Some r) \<longrightarrow> HasSuffix key ''.tar.gz'')"
  by (intro conjI impI buildKey_suffix backupPath_ops backupPath_progress_ops parseKey_suffix)

lemma Format_exNow: "Format_timestamp exNow = ''20240315-120000''"
  by code_simp

theorem archive_suffix_fixed_witness:
  "parseKey exClient ''backups/web/data/20240315-120000.tar'' = Inr None
   \<and> parseKey exClient ''backups/web/data/20240315-120000.tar.gz''
       = Inr (Some (exRecord ''web'' ''data'' ''20240315-120000''\<lparr>Size := 0, ETag := ''''\<rparr>))
   \<and> HasSuffix ''backups/web/data/20240315-120000.tar.gz'' ''.tar.gz''
   \<and> snd (backupPath (exConfig\<lparr>Compression := False, MinSize := 0\<rparr>) exClient exEnv exNow
             ''web'' ''data'' ''/var/www'' [])
       = [PutObject ''backups/web/data/20240315-120000.tar.gz'',
          HeadObject ''backups/web/data/20240315-120000.tar.gz'']"
proof -
  have n: "parseKey exClient ''backups/web/data/20240315-120000.tar'' = Inr None"
    by code_simp
  have h: "parseKey exClient ''backups/web/data/20240315-120000.tar.gz''
       = Inr (Some (exRecord ''web'' ''data'' ''20240315-120000''\<lparr>Size := 0, ETag := ''''\<rparr>))"
    by code_simp
  note t = archive_suffix_fixed [where s = exClient
             and key = "''backups/web/data/20240315-120000.tar.gz''"]
  note sfx = t [THEN conjunct2, THEN conjunct2, THEN conjunct2, rule_format, OF h]
  have ops: "snd (backupPath (exConfig\<lparr>Compression := False, MinSize := 0\<rparr>) exClient exEnv exNow
             ''web'' ''data'' ''/var/www'' [])
       = [PutObject ''backups/web/data/20240315-120000.tar.gz'',
          HeadObject ''backups/web/data/20240315-120000.tar.gz'']"
    by (simp add: backupPath_def Let_def exEnv_def exConfig_def finishUpload_ops Upload_def
        Format_exNow buildKey_def exClient_def)
  show ?thesis by (rule conjI [OF n conjI [OF h conjI [OF sfx ops]]])
qed

end
